theory Spec2Isabelle
  imports Complex_Main "HOL-Library.Multiset"
begin

section \<open>Python values and exceptions\<close>

text \<open>
  The exceptions that reach the scanner. \<open>DNSError\<close> is \<open>aiodns.error.DNSError\<close>,
  \<open>ValueError\<close> the built-in one, \<open>MarkupError\<close> the one that rich raises when it
  renders console markup, \<open>OtherException\<close> any other subclass of Python's
  \<open>Exception\<close>; each carries the text of \<open>str(e)\<close>. \<open>KeyboardInterrupt\<close> and
  \<open>CancelledError\<close> derive from \<open>BaseException\<close> only, so \<open>except Exception\<close> does not
  catch them.
\<close>

datatype exn =
    DNSError string
  | ValueError string
  | MarkupError string
  | OtherException string
  | KeyboardInterrupt
  | CancelledError

fun is_Exception :: "exn \<Rightarrow> bool" where
  "is_Exception (DNSError m) = True"
| "is_Exception (ValueError m) = True"
| "is_Exception (MarkupError m) = True"
| "is_Exception (OtherException m) = True"
| "is_Exception KeyboardInterrupt = False"
| "is_Exception CancelledError = False"

fun is_DNSError :: "exn \<Rightarrow> bool" where
  "is_DNSError (DNSError m) = True"
| "is_DNSError e = False"

fun str_exn :: "exn \<Rightarrow> string" where
  "str_exn (DNSError m) = m"
| "str_exn (ValueError m) = m"
| "str_exn (MarkupError m) = m"
| "str_exn (OtherException m) = m"
| "str_exn KeyboardInterrupt = []"
| "str_exn CancelledError = []"

text \<open>\<open>sep.join(xs)\<close>.\<close>

fun py_join :: "string \<Rightarrow> string list \<Rightarrow> string" where
  "py_join sep [] = []"
| "py_join sep [x] = x"
| "py_join sep (x # y # ys) = x @ sep @ py_join sep (y # ys)"

text \<open>
  \<open>xs[i:j]\<close> with Python's clamping of both bounds (a negative bound counts from the
  end).
\<close>

definition py_slice :: "'a list \<Rightarrow> int \<Rightarrow> int \<Rightarrow> 'a list" where
  "py_slice xs i j =
     (let n = int (length xs);
          lo = (if i < 0 then max 0 (n + i) else min i n);
          hi = (if j < 0 then max 0 (n + j) else min j n)
      in take (nat (hi - lo)) (drop (nat lo) xs))"

text \<open>
  \<open>range(lo, hi, step)\<close>: a zero step raises \<open>ValueError\<close>; otherwise the values
  \<open>lo, lo + step, ...\<close> strictly before \<open>hi\<close> (after it, for a negative step).
\<close>

definition range_len :: "int \<Rightarrow> int \<Rightarrow> int \<Rightarrow> nat" where
  "range_len lo hi step =
     (if 0 < step \<and> lo < hi then nat ((hi - lo - 1) div step + 1)
      else if step < 0 \<and> hi < lo then nat ((lo - hi - 1) div (- step) + 1)
      else 0)"

definition py_range :: "int \<Rightarrow> int \<Rightarrow> int \<Rightarrow> exn + int list" where
  "py_range lo hi step =
     (if step = 0 then Inl (ValueError ''range() arg 3 must not be zero'')
      else Inr (map (\<lambda>k. lo + int k * step) [0..<range_len lo hi step]))"

text \<open>\<open>s.strip()\<close>, for the whitespace test \<open>sp\<close> (\<open>str.isspace\<close> on one character).\<close>

definition strip :: "(char \<Rightarrow> bool) \<Rightarrow> string \<Rightarrow> string" where
  "strip sp s = rev (dropWhile sp (rev (dropWhile sp s)))"

text \<open>
  The decimal digits of a natural number, and \<open>{x:.2f}\<close> for a float \<open>x\<close>, given by its
  exact value: the sign, then the nearest multiple of one hundredth (a tie goes to the
  even one) with exactly two decimals.
\<close>

fun str_nat :: "nat \<Rightarrow> string" where
  "str_nat n =
     (if n < 10 then [char_of (48 + n)]
      else str_nat (n div 10) @ [char_of (48 + n mod 10)])"

declare str_nat.simps [simp del]

definition round_half_even :: "rat \<Rightarrow> int" where
  "round_half_even x =
     (let f = \<lfloor>x\<rfloor>; d = x - of_int f
      in if d < 1 / 2 then f else if 1 / 2 < d then f + 1 else if even f then f else f + 1)"

definition format_2f :: "rat \<Rightarrow> string" where
  "format_2f x =
     (let q = nat (round_half_even (\<bar>x\<bar> * 100))
      in (if x < 0 then ''-'' else []) @ str_nat (q div 100) @ ''.''
           @ [char_of (48 + q mod 100 div 10), char_of (48 + q mod 10)])"

section \<open>The environment and the state\<close>

text \<open>
  What the outside does to one lookup: \<open>reply\<close> is what awaiting
  \<open>gethostbyname\<close> gives (\<open>Inr\<close> the \<open>addresses\<close> of the result, \<open>Inl\<close> the exception
  raised), \<open>duration\<close> the exact value of the difference of the two \<open>time.time()\<close>
  readings, and \<open>finished\<close> the moment the reply arrives: the tasks of one
  \<open>asyncio.gather\<close> resume in the order of their arrival.
\<close>

record answer =
  reply :: "exn + string list"
  duration :: rat
  finished :: nat

text \<open>What opening and reading the wordlist file gives.\<close>

datatype read_result =
    NotFound
  | ReadError string
  | Lines "string list"

text \<open>
  The environment of a run. \<open>answer k\<close> is the answer to the lookup of the candidate at
  position \<open>k\<close> of the candidate list. \<open>markup_error t\<close> is the message of the
  \<open>MarkupError\<close> that rich raises when \<open>console.print\<close> renders the text \<open>t\<close>, if it does
  (a closing tag in \<open>t\<close> that matches no open tag), and \<open>open_error p\<close> the message of
  the \<open>IOError\<close> that writing the file \<open>p\<close> raises, if it does.
\<close>

record env =
  isspace :: "char \<Rightarrow> bool"
  wordlist_file :: "string \<Rightarrow> read_result"
  answer :: "nat \<Rightarrow> answer"
  markup_error :: "string \<Rightarrow> string option"
  open_error :: "string \<Rightarrow> string option"

text \<open>The fields of \<open>SubdomainScanner\<close> (its resolver holds no state).\<close>

record scanner =
  domain :: string
  wordlist :: "string list"
  concurrency :: int
  output_file :: "string option"
  results :: "string list"

text \<open>
  Everything a run does to the outside: the lines printed on the console, the messages
  given to \<open>logging.error\<close>, the progress task (\<open>task_total\<close>, \<open>task_completed\<close>) and
  the pairs (completed, total) it has displayed, the groups of candidates handed to
  \<open>asyncio.gather\<close> so far, and the files written, each with the encoding it was opened
  with and the text written to it.
\<close>

record world =
  console :: "string list"
  errlog :: "string list"
  task_total :: nat
  task_completed :: nat
  display :: "(nat \<times> nat) list"
  gathered :: "string list list"
  files :: "string \<Rightarrow> (string \<times> string) option"

section \<open>The scanner\<close>

text \<open>
  An operation that can be left by an exception returns that exception, if any (\<open>None\<close>
  when it returns normally), with the scanner and the world as it leaves them.
\<close>

text \<open>
  \<open>console.print\<close> of a text built from data of the run: rich renders its markup and
  raises before anything is shown when that fails. The messages that are literals of the
  source have matching tags; printing them only adds to the console.
\<close>

definition console_print :: "env \<Rightarrow> string \<Rightarrow> world \<Rightarrow> exn option \<times> world" where
  "console_print env text w =
     (case markup_error env text of
        Some msg \<Rightarrow> (Some (MarkupError msg), w)
      | None \<Rightarrow> (None, w\<lparr>console := console w @ [text]\<rparr>))"

text \<open>\<open>DNSResolver.resolve\<close>, given what the lookup gives.\<close>

definition resolve :: "exn + string list \<Rightarrow> string \<Rightarrow> world \<Rightarrow> (exn + string list) \<times> world" where
  "resolve r subdomain w =
     (case r of
        Inr addresses \<Rightarrow> (Inr addresses, w)
      | Inl e \<Rightarrow>
          if is_DNSError e then (Inr [], w)
          else if is_Exception e then
            (Inr [], w\<lparr>errlog := errlog w @ [''Error resolving '' @ subdomain @ '': '' @ str_exn e]\<rparr>)
          else (Inl e, w))"

text \<open>\<open>SubdomainScanner.generate_subdomains\<close>.\<close>

definition generate_subdomains :: "scanner \<Rightarrow> string list" where
  "generate_subdomains sc = [word @ ''.'' @ domain sc. word \<leftarrow> wordlist sc, word \<noteq> []]"

text \<open>The line that \<open>resolve_subdomain\<close> appends to \<open>results\<close>, and the one it prints.\<close>

definition result_line :: "string \<Rightarrow> string list \<Rightarrow> rat \<Rightarrow> string" where
  "result_line subdomain ips d =
     subdomain @ '' -> '' @ py_join '', '' ips @ '' '' @ format_2f d"

definition console_line :: "string \<Rightarrow> string list \<Rightarrow> rat \<Rightarrow> string" where
  "console_line subdomain ips d =
     ''[green]'' @ subdomain @ ''[/green] -> [cyan]'' @ py_join '', '' ips
       @ ''[/cyan] ([yellow]'' @ format_2f d @ ''s[/yellow])''"

text \<open>
  \<open>SubdomainScanner.resolve_subdomain\<close>, from the moment its lookup is answered. An
  exception that \<open>resolve\<close> lets through, or that the print raises, leaves the task
  before the result is appended and before the progress is advanced.
\<close>

definition resolve_subdomain ::
  "env \<Rightarrow> answer \<Rightarrow> string \<Rightarrow> scanner \<times> world \<Rightarrow> exn option \<times> scanner \<times> world" where
  "resolve_subdomain env a subdomain st =
     (case st of (sc, w) \<Rightarrow>
        (case resolve (reply a) subdomain w of
           (Inl e, w1) \<Rightarrow> (Some e, sc, w1)
         | (Inr resolved_ips, w1) \<Rightarrow>
             (case (if resolved_ips \<noteq> []
                    then console_print env (console_line subdomain resolved_ips (duration a)) w1
                    else (None, w1)) of
                (Some e, w2) \<Rightarrow> (Some e, sc, w2)
              | (None, w2) \<Rightarrow>
                  (let sc2 = (if resolved_ips \<noteq> []
                              then sc\<lparr>results := results sc @
                                     [result_line subdomain resolved_ips (duration a)]\<rparr>
                              else sc);
                       c = task_completed w2 + 1
                   in (None, sc2,
                       w2\<lparr>task_completed := c, display := display w2 @ [(c, task_total w2)]\<rparr>)))))"

text \<open>
  The tasks of one group as they complete, each with its position in the candidate
  list. The first exception that leaves a task ends the group for \<open>scan\<close>. An
  \<open>Exception\<close> or a cancellation is what \<open>gather\<close> raises in \<open>scan\<close>. A
  \<open>KeyboardInterrupt\<close> is raised again by the task out of the event loop, and at the
  shut-down of the loop the task that runs \<open>scan\<close> is cancelled: \<open>scan\<close> is then left by
  \<open>CancelledError\<close>, unless another task of the group is still pending, in which case
  the cancellation goes to that task and the \<open>KeyboardInterrupt\<close> itself reaches \<open>scan\<close>.
\<close>

fun run_tasks ::
  "env \<Rightarrow> (nat \<times> string) list \<Rightarrow> scanner \<times> world \<Rightarrow> exn option \<times> scanner \<times> world" where
  "run_tasks env [] st = (None, st)"
| "run_tasks env ((k, subdomain) # ts) st =
     (case resolve_subdomain env (answer env k) subdomain st of
        (Some e, st') \<Rightarrow>
          (Some (if e = KeyboardInterrupt \<and> ts = [] then CancelledError else e), st')
      | (None, st') \<Rightarrow> run_tasks env ts st')"

text \<open>
  The order in which the tasks of the group starting at position \<open>i\<close> complete: by the
  arrival of their replies, ties in the order of the group.
\<close>

definition completion_order :: "env \<Rightarrow> nat \<Rightarrow> string list \<Rightarrow> (nat \<times> string) list" where
  "completion_order env i batch = sort_key (\<lambda>(k, s). finished (answer env k)) (enumerate i batch)"

text \<open>\<open>await asyncio.gather(*tasks)\<close> on the group \<open>batch\<close>, which starts at position \<open>i\<close>.\<close>

definition gather ::
  "env \<Rightarrow> nat \<Rightarrow> string list \<Rightarrow> scanner \<times> world \<Rightarrow> exn option \<times> scanner \<times> world" where
  "gather env i batch st =
     (case st of (sc, w) \<Rightarrow>
        run_tasks env (completion_order env i batch) (sc, w\<lparr>gathered := gathered w @ [batch]\<rparr>))"

text \<open>The body of the \<open>for\<close> loop of \<open>scan\<close>, over the values of the \<open>range\<close>.\<close>

fun scan_loop ::
  "env \<Rightarrow> string list \<Rightarrow> int \<Rightarrow> int list \<Rightarrow> scanner \<times> world \<Rightarrow> exn option \<times> scanner \<times> world" where
  "scan_loop env subdomains n [] st = (None, st)"
| "scan_loop env subdomains n (i # is) st =
     (case gather env (nat i) (py_slice subdomains i (i + n)) st of
        (Some e, st') \<Rightarrow> (Some e, st')
      | (None, st') \<Rightarrow> scan_loop env subdomains n is st')"

text \<open>
  \<open>SubdomainScanner.save_results\<close>, called with the output path. An \<open>IOError\<close> is
  logged; the \<open>MarkupError\<close> of the last print is not an \<open>IOError\<close> and leaves
  \<open>save_results\<close>, after the file has been written.
\<close>

definition saved_message :: "string \<Rightarrow> string" where
  "saved_message path = ''[bold green]Results saved to:[/bold green] '' @ path"

definition save_results :: "env \<Rightarrow> string \<Rightarrow> scanner \<times> world \<Rightarrow> exn option \<times> scanner \<times> world" where
  "save_results env path st =
     (case st of (sc, w) \<Rightarrow>
        (case open_error env path of
           Some msg \<Rightarrow> (None, sc, w\<lparr>errlog := errlog w @ [''Error saving results: '' @ msg]\<rparr>)
         | None \<Rightarrow>
             (case console_print env (saved_message path)
                     (w\<lparr>files := (files w)(path \<mapsto>
                          (''utf-8'', concat (map (\<lambda>result. result @ [CHR 0x0A]) (results sc))))\<rparr>) of
                (e, w') \<Rightarrow> (e, sc, w'))))"

text \<open>\<open>SubdomainScanner.scan\<close>.\<close>

definition scan :: "env \<Rightarrow> scanner \<times> world \<Rightarrow> exn option \<times> scanner \<times> world" where
  "scan env st =
     (case st of (sc, w) \<Rightarrow>
        (let subdomains = generate_subdomains sc;
             w1 = w\<lparr>task_total := length subdomains, task_completed := 0\<rparr>
         in case py_range 0 (int (length subdomains)) (concurrency sc) of
              Inl e \<Rightarrow> (Some e, sc, w1)
            | Inr js \<Rightarrow>
                (case scan_loop env subdomains (concurrency sc) js (sc, w1) of
                   (Some e, st2) \<Rightarrow> (Some e, st2)
                 | (None, st2) \<Rightarrow>
                     (case output_file sc of
                        None \<Rightarrow> (None, st2)
                      | Some path \<Rightarrow>
                          if path \<noteq> [] then save_results env path st2
                          else (None, st2)))))"

text \<open>\<open>WordlistLoader.load\<close>.\<close>

definition load :: "env \<Rightarrow> string \<Rightarrow> world \<Rightarrow> string list \<times> world" where
  "load env file_path w =
     (case wordlist_file env file_path of
        Lines ls \<Rightarrow> ([strip (isspace env) line. line \<leftarrow> ls, strip (isspace env) line \<noteq> []], w)
      | NotFound \<Rightarrow>
          ([], w\<lparr>errlog := errlog w @ [''Wordlist file '' @ [CHR 0x27] @ file_path @ [CHR 0x27] @ '' not found.'']\<rparr>)
      | ReadError msg \<Rightarrow>
          ([], w\<lparr>errlog := errlog w @ [''Error reading wordlist file: '' @ msg]\<rparr>))"

text \<open>
  \<open>ScannerApp.run\<close>. The result is the exception that leaves \<open>run\<close>, if one does.
  \<open>handle\<close> is its two \<open>except\<close> clauses, for an exception raised within the \<open>try\<close>
  block: the print of the start message and the scan.
\<close>

definition start_message :: "string \<Rightarrow> string" where
  "start_message domain_name = ''[bold green]Starting scan for domain:[/bold green] '' @ domain_name"

definition handle :: "exn \<Rightarrow> world \<Rightarrow> exn option \<times> world" where
  "handle e w =
     (if e = KeyboardInterrupt then
        (None, w\<lparr>console := console w @ [CHR 0x0A # ''[bold red]Scan interrupted by user.[/bold red]'']\<rparr>)
      else if is_Exception e then
        (None, w\<lparr>errlog := errlog w @ [''Unexpected error: '' @ str_exn e]\<rparr>)
      else (Some e, w))"

definition run :: "env \<Rightarrow> string \<Rightarrow> string \<Rightarrow> int \<Rightarrow> string option \<Rightarrow> world \<Rightarrow> exn option \<times> world" where
  "run env domain_name wordlist_path conc out w =
     (case load env wordlist_path w of (wl, w1) \<Rightarrow>
        if wl = [] then
          (None, w1\<lparr>console := console w1 @ [''[red]No words found in the wordlist. Exiting.[/red]'']\<rparr>)
        else
          (let sc = \<lparr>domain = domain_name, wordlist = wl, concurrency = conc, output_file = out, results = []\<rparr>
           in case console_print env (start_message domain_name) w1 of
                (Some e, w2) \<Rightarrow> handle e w2
              | (None, w2) \<Rightarrow>
                  (case scan env (sc, w2) of
                     (None, sc3, w3) \<Rightarrow> (None, w3)
                   | (Some e, sc3, w3) \<Rightarrow> handle e w3)))"

section \<open>Notions the properties speak of\<close>

text \<open>A world in which nothing has happened yet.\<close>

definition init_world :: world where
  "init_world = \<lparr>console = [], errlog = [], task_total = 0, task_completed = 0, display = [],
     gathered = [], files = (\<lambda>p. None)\<rparr>"

text \<open>
  A lookup \<open>raises\<close> when its exception is one that \<open>resolve\<close> does not catch: a
  \<open>KeyboardInterrupt\<close> or a cancellation, that is, an interruption.
\<close>

definition raises :: "exn + string list \<Rightarrow> bool" where
  "raises r = (case r of Inl e \<Rightarrow> \<not> is_Exception e | Inr a \<Rightarrow> False)"

text \<open>
  The address list of the outcome of a lookup: the addresses it gave, none when it
  failed.
\<close>

definition outcome_addresses :: "exn + string list \<Rightarrow> string list" where
  "outcome_addresses r = (case r of Inl e \<Rightarrow> [] | Inr a \<Rightarrow> a)"

text \<open>
  The exception that leaves the task of the candidate \<open>s\<close> at position \<open>k\<close>, if one
  does: the interruption of its lookup, or the \<open>MarkupError\<close> of the print of its
  result. No task fails below the position \<open>b\<close> when none of the tasks at the positions
  \<open>0, ..., b - 1\<close> of the candidates \<open>xs\<close> is left by an exception.
\<close>

definition task_exn :: "env \<Rightarrow> nat \<times> string \<Rightarrow> exn option" where
  "task_exn env t =
     (case t of (k, s) \<Rightarrow>
        (case reply (answer env k) of
           Inl e \<Rightarrow> if is_Exception e then None else Some e
         | Inr ips \<Rightarrow>
             if ips = [] then None
             else map_option MarkupError
                    (markup_error env (console_line s ips (duration (answer env k))))))"

definition no_task_fails :: "env \<Rightarrow> string list \<Rightarrow> nat \<Rightarrow> bool" where
  "no_task_fails env xs b = (\<forall>k \<in> set [0..<b]. task_exn env (k, xs ! k) = None)"

text \<open>
  Of a list of tasks (position, candidate), those whose outcome has addresses, and the
  line that stands for such a task in the results.
\<close>

definition successful :: "env \<Rightarrow> (nat \<times> string) list \<Rightarrow> (nat \<times> string) list" where
  "successful env ts = filter (\<lambda>(k, s). outcome_addresses (reply (answer env k)) \<noteq> []) ts"

definition line_of :: "env \<Rightarrow> nat \<times> string \<Rightarrow> string" where
  "line_of env t =
     (case t of (k, s) \<Rightarrow>
        result_line s (outcome_addresses (reply (answer env k))) (duration (answer env k)))"

text \<open>
  The groups that the loop of \<open>scan\<close> cuts the candidates \<open>xs\<close> into, for the
  concurrency \<open>n\<close>, and the order in which the tasks of all the groups complete, one
  group after the other.
\<close>

definition groups :: "int \<Rightarrow> 'a list \<Rightarrow> 'a list list" where
  "groups n xs =
     (case py_range 0 (int (length xs)) n of
        Inl e \<Rightarrow> []
      | Inr js \<Rightarrow> map (\<lambda>i. py_slice xs i (i + n)) js)"

definition schedule :: "env \<Rightarrow> int \<Rightarrow> string list \<Rightarrow> (nat \<times> string) list" where
  "schedule env n xs =
     (case py_range 0 (int (length xs)) n of
        Inl e \<Rightarrow> []
      | Inr js \<Rightarrow> concat (map (\<lambda>i. completion_order env (nat i) (py_slice xs i (i + n))) js))"

text \<open>
  Completion order, said without the scheduler: with groups of \<open>N\<close> candidates, the task
  at position \<open>k\<close> is in the group \<open>k div N\<close>; a task completes before another one when
  its group is an earlier one or, within one group, when its reply arrives earlier or
  at the same moment while it stands earlier in the group.
\<close>

definition before :: "env \<Rightarrow> nat \<Rightarrow> nat \<times> string \<Rightarrow> nat \<times> string \<Rightarrow> bool" where
  "before env N t u =
     (fst t div N < fst u div N \<or>
      fst t div N = fst u div N \<and>
        (finished (answer env (fst t)) < finished (answer env (fst u)) \<or>
         finished (answer env (fst t)) = finished (answer env (fst u)) \<and> fst t < fst u))"

text \<open>
  A text is a decimal number with two decimals: an optional minus sign, at least one
  digit, a point and exactly two digits.
\<close>

definition is_digit :: "char \<Rightarrow> bool" where
  "is_digit c = (c \<in> set ''0123456789'')"

definition two_decimals :: "string \<Rightarrow> bool" where
  "two_decimals t =
     (let u = (if take 1 t = ''-'' then drop 1 t else t)
      in 4 \<le> length u \<and> u ! (length u - 3) = CHR ''.'' \<and>
         list_all is_digit (take (length u - 3) u) \<and>
         list_all is_digit (drop (length u - 2) u))"

section \<open>An example run\<close>

text \<open>
  The wordlist \<open>www\<close>, \<open>doesnotexist123\<close>, \<open>mail\<close>, \<open>ftp\<close>, \<open>api\<close> against
  \<open>example.com\<close>, two lookups at a time. The second name does not exist and its failure
  arrives before the answer for \<open>www\<close>; in the second group the answer for \<open>ftp\<close>
  arrives before the one for \<open>mail\<close>. Rich rejects the line printed for a candidate
  that starts with \<open>[/x]\<close>, a closing tag that matches no open tag. In
  \<open>interrupted_env\<close> the user interrupts the lookup of \<open>mail\<close>.
\<close>

definition example_env :: env where
  "example_env =
     \<lparr>isspace = (\<lambda>c. c = CHR '' '' \<or> c = CHR 0x09 \<or> c = CHR 0x0A \<or> c = CHR 0x0D),
      wordlist_file = (\<lambda>p. if p = ''words.txt''
         then Lines [''www'' @ [CHR 0x0A], ''doesnotexist123'' @ [CHR 0x0A], [CHR 0x0A],
                     ''  mail'' @ [CHR 0x0A], ''ftp'' @ [CHR 0x0A], ''api'']
         else NotFound),
      answer = (\<lambda>k.
         if k = 0 then \<lparr>reply = Inr [''93.184.216.34'', ''2606:2800:220:1::1''],
                         duration = 512 / 10000, finished = 2\<rparr>
         else if k = 1 then \<lparr>reply = Inl (DNSError ''Domain name not found''),
                         duration = 301 / 10000, finished = 1\<rparr>
         else if k = 2 then \<lparr>reply = Inr [''93.184.216.35''], duration = 623 / 10000, finished = 4\<rparr>
         else if k = 3 then \<lparr>reply = Inr [''93.184.216.36''], duration = 415 / 10000, finished = 3\<rparr>
         else \<lparr>reply = Inr [''93.184.216.37''], duration = 1 / 8, finished = 5\<rparr>),
      markup_error = (\<lambda>t. if take 11 t = ''[green][/x]''
         then Some ''closing tag does not match any open tag'' else None),
      open_error = (\<lambda>p. None)\<rparr>"

definition interrupted_env :: env where
  "interrupted_env =
     example_env\<lparr>answer := (\<lambda>k.
        if k = 2 then \<lparr>reply = Inl KeyboardInterrupt, duration = 623 / 10000, finished = 4\<rparr>
        else answer example_env k)\<rparr>"

definition example_scanner :: scanner where
  "example_scanner =
     \<lparr>domain = ''example.com'', wordlist = [''www'', ''doesnotexist123'', ''mail'', ''ftp'', ''api''],
      concurrency = 2, output_file = Some ''out.txt'', results = []\<rparr>"

definition markup_scanner :: scanner where
  "markup_scanner =
     \<lparr>domain = ''example.com'', wordlist = [''[/x]''], concurrency = 1,
      output_file = Some ''out.txt'', results = []\<rparr>"

section \<open>Auxiliary facts\<close>

lemma py_slice_take_drop:
  "0 \<le> i \<Longrightarrow> 0 \<le> n \<Longrightarrow> py_slice xs i (i + n) = take (nat n) (drop (nat i) xs)"
  by (auto simp: py_slice_def Let_def min_def nat_diff_distrib' nat_add_distrib take_all_iff)

lemma range_len_pos:
  "0 < n \<Longrightarrow> range_len 0 (int L) n = nat ((int L + n - 1) div n)"
  by (auto simp: range_len_def div_pos_geq)

lemma ceiling_div_pos:
  assumes "0 < (n::int)"
  shows "\<lceil>real_of_int a / real_of_int n\<rceil> = (a + n - 1) div n"
proof -
  have r: "0 \<le> a mod n" "a mod n < n" using assms by simp_all
  have "a + n - 1 = (a mod n + n - 1) + n * (a div n)"
    by (simp add: algebra_simps)
  then have e: "(a + n - 1) div n = a div n + (a mod n + n - 1) div n"
    using assms by (metis add.commute div_mult_self2 less_irrefl)
  have c: "\<lceil>real_of_int a / real_of_int n\<rceil> = - (- a div n)"
    by (rule ceiling_divide_eq_div)
  show ?thesis
  proof (cases "a mod n = 0")
    case True
    then have "(a mod n + n - 1) div n = 0" using assms by (simp add: div_pos_pos_trivial)
    with True e c assms show ?thesis by (simp add: zdiv_zminus1_eq_if)
  next
    case False
    with r have "1 \<le> a mod n" by simp
    then have "(a mod n - 1) div n = 0" using r
      by (intro div_pos_pos_trivial) simp_all
    moreover have "(a mod n + n - 1) div n = (a mod n + n - 1 - n) div n + 1"
      using assms \<open>1 \<le> a mod n\<close> by (intro div_pos_geq) simp_all
    moreover have "a mod n + n - 1 - n = a mod n - 1" by simp
    ultimately have "(a mod n + n - 1) div n = 1" by presburger
    with False e c assms show ?thesis by (simp add: zdiv_zminus1_eq_if)
  qed
qed

lemma concat_chunks:
  "concat (map (\<lambda>k. take n (drop (k * n) xs)) [0..<m]) = take (m * n) xs"
  apply (induction m)
   apply simp
  apply (simp add: take_add[symmetric] add.commute)
  done

lemma enumerate_take_drop:
  "enumerate i (take n (drop i xs)) = take n (drop i (enumerate 0 xs))"
  apply (simp add: enumerate_eq_zip take_zip drop_zip)
  by (metis (no_types, lifting) add_le_cancel_left drop_eq_Nil2 length_upt
    min.cobounded1 min_def
    ordered_cancel_comm_monoid_diff_class.add_diff_inverse take_Nil take_all
    take_upt zip.simps(1))

lemma ceil_mult_ge:
  assumes "0 < (N::nat)"
  shows "L \<le> ((L + N - 1) div N) * N"
proof -
  have "((L + N - 1) div N) * N + (L + N - 1) mod N = L + N - 1" by simp
  moreover have "(L + N - 1) mod N < N" using assms by simp
  ultimately show ?thesis using assms by arith
qed

lemma lt_ceil_mult:
  assumes "0 < (N::nat)" and "k < (L + N - 1) div N"
  shows "k * N < L"
proof -
  have "((L + N - 1) div N) * N + (L + N - 1) mod N = L + N - 1" by simp
  moreover have "Suc k * N \<le> ((L + N - 1) div N) * N"
    using assms(2) by (intro mult_le_mono1) simp
  moreover have "Suc k * N = k * N + N" by simp
  ultimately show ?thesis using assms(1) by arith
qed

lemma ceil_one:
  assumes "0 < L" and "L < (N::nat)"
  shows "(L + N - 1) div N = 1"
  using assms by (intro div_nat_eqI) simp_all

lemma nat_ceil:
  assumes "0 < (N :: nat)"
  shows "nat ((int L + int N - 1) div int N) = (L + N - 1) div N"
proof -
  have "int L + int N - 1 = int (L + N - 1)" using assms by simp
  then show ?thesis by (simp only: zdiv_int [symmetric] nat_int)
qed

lemma pos_int_nat:
  assumes "1 \<le> (n::int)"
  obtains N where "n = int N" and "0 < N"
proof -
  from assms have "n = int (nat n)" and "0 < nat n" by simp_all
  then show ?thesis by (rule that)
qed

lemma is_DNSError_Exception [simp]: "is_DNSError e \<Longrightarrow> is_Exception e"
  by (cases e) simp_all

lemma resolve_subdomain_exn:
  "fst (resolve_subdomain env (answer env k) s (sc, w)) = task_exn env (k, s)"
  by (cases "reply (answer env k)")
    (auto simp: resolve_subdomain_def resolve_def task_exn_def console_print_def Let_def
          split: option.splits)

lemma resolve_subdomain_frame:
  "resolve_subdomain env a s (sc, w) = (r, sc', w') \<Longrightarrow>
     files w' = files w \<and> gathered w' = gathered w \<and> task_total w' = task_total w \<and>
     domain sc' = domain sc \<and> wordlist sc' = wordlist sc \<and> concurrency sc' = concurrency sc \<and>
     output_file sc' = output_file sc"
  by (cases "reply a")
    (auto simp: resolve_subdomain_def resolve_def console_print_def Let_def
          split: option.splits if_splits)

lemma resolve_subdomain_ok:
  assumes "task_exn env (k, s) = None"
    and "resolve_subdomain env (answer env k) s (sc, w) = (r, sc', w')"
  shows "r = None \<and>
         results sc' = results sc @ map (line_of env) (successful env [(k, s)]) \<and>
         task_completed w' = task_completed w + 1 \<and>
         display w' = display w @ [(task_completed w + 1, task_total w)]"
  using assms
  by (cases "reply (answer env k)")
    (auto simp: resolve_subdomain_def resolve_def task_exn_def console_print_def Let_def
          successful_def line_of_def outcome_addresses_def
          split: option.splits if_splits)

lemma run_tasks_frame:
  "run_tasks env ts (sc, w) = (r, sc', w') \<Longrightarrow>
     files w' = files w \<and> gathered w' = gathered w \<and> task_total w' = task_total w \<and>
     domain sc' = domain sc \<and> wordlist sc' = wordlist sc \<and> concurrency sc' = concurrency sc \<and>
     output_file sc' = output_file sc"
proof (induction ts arbitrary: sc w)
  case Nil
  then show ?case by simp
next
  case (Cons t ts)
  obtain k s where t: "t = (k, s)" by (cases t)
  obtain r1 sc1 w1 where st: "resolve_subdomain env (answer env k) s (sc, w) = (r1, sc1, w1)"
    by (cases "resolve_subdomain env (answer env k) s (sc, w)") auto
  note f = resolve_subdomain_frame [OF st]
  show ?case
  proof (cases r1)
    case None
    with Cons.prems t st have "run_tasks env ts (sc1, w1) = (r, sc', w')" by simp
    from Cons.IH [OF this] f show ?thesis by simp
  next
    case (Some e)
    with Cons.prems t st f show ?thesis by auto
  qed
qed

lemma run_tasks_ok:
  assumes "\<forall>t \<in> set ts. task_exn env t = None"
    and "run_tasks env ts (sc, w) = (r, sc', w')"
  shows "r = None \<and>
         results sc' = results sc @ map (line_of env) (successful env ts) \<and>
         task_completed w' = task_completed w + length ts \<and>
         display w' = display w @ map (\<lambda>j. (j, task_total w)) [Suc (task_completed w)..<Suc (task_completed w + length ts)]"
  using assms
proof (induction ts arbitrary: sc w)
  case Nil
  then show ?case by (simp add: successful_def)
next
  case (Cons t ts)
  obtain k s where t: "t = (k, s)" by (cases t)
  obtain r1 sc1 w1 where st: "resolve_subdomain env (answer env k) s (sc, w) = (r1, sc1, w1)"
    by (cases "resolve_subdomain env (answer env k) s (sc, w)") auto
  from Cons.prems(1) t have nr: "task_exn env (k, s) = None" by simp
  note o = resolve_subdomain_ok [OF nr st]
  note f = resolve_subdomain_frame [OF st]
  from o Cons.prems(2) t st have rest: "run_tasks env ts (sc1, w1) = (r, sc', w')" by simp
  from Cons.prems(1) have "\<forall>t \<in> set ts. task_exn env t = None" by simp
  note ih = Cons.IH [OF this rest]
  have succ: "successful env (t # ts) = successful env [(k, s)] @ successful env ts"
    by (simp add: successful_def t)
  have "display w' = display w @ map (\<lambda>j. (j, task_total w)) [Suc (task_completed w)..<Suc (task_completed w + length (t # ts))]"
    using ih o f by (simp add: upt_conv_Cons del: upt_Suc)
  with ih o succ show ?case by simp
qed

lemma run_tasks_fails:
  assumes "\<exists>t \<in> set ts. task_exn env t \<noteq> None"
    and "run_tasks env ts (sc, w) = (r, sc', w')"
  shows "r \<noteq> None"
  using assms
proof (induction ts arbitrary: sc w)
  case Nil
  then show ?case by simp
next
  case (Cons t ts)
  obtain k s where t: "t = (k, s)" by (cases t)
  obtain r1 sc1 w1 where st: "resolve_subdomain env (answer env k) s (sc, w) = (r1, sc1, w1)"
    by (cases "resolve_subdomain env (answer env k) s (sc, w)") auto
  have r1: "r1 = task_exn env (k, s)" using resolve_subdomain_exn [of env k s sc w] st by simp
  show ?case
  proof (cases r1)
    case None
    with Cons.prems(1) t r1 have "\<exists>t \<in> set ts. task_exn env t \<noteq> None" by auto
    moreover from None Cons.prems(2) t st have "run_tasks env ts (sc1, w1) = (r, sc', w')" by simp
    ultimately show ?thesis by (rule Cons.IH)
  next
    case (Some e)
    with Cons.prems(2) t st show ?thesis by auto
  qed
qed

lemma py_range_pos:
  assumes "0 < N"
  shows "py_range 0 (int L) (int N) = Inr (map (\<lambda>k. int (k * N)) [0..<(L + N - 1) div N])"
proof -
  have "range_len 0 (int L) (int N) = (L + N - 1) div N"
    using assms range_len_pos [of "int N" L] nat_ceil [of N L] by simp
  with assms show ?thesis by (simp add: py_range_def)
qed

lemma py_slice_group:
  "py_slice xs (int (k * N)) (int (k * N) + int N) = take N (drop (k * N) xs)"
  using py_slice_take_drop [of "int (k * N)" "int N" xs] by (simp del: of_nat_mult)

lemma groups_pos:
  assumes "0 < N"
  shows "groups (int N) xs = map (\<lambda>k. take N (drop (k * N) xs)) [0..<(length xs + N - 1) div N]"
  using py_range_pos [OF assms, of "length xs"]
  by (simp add: groups_def comp_def py_slice_group del: of_nat_mult)

lemma schedule_pos:
  assumes "0 < N"
  shows "schedule env (int N) xs =
         concat (map (\<lambda>k. completion_order env (k * N) (take N (drop (k * N) xs)))
                   [0..<(length xs + N - 1) div N])"
  using py_range_pos [OF assms, of "length xs"]
  by (simp add: schedule_def comp_def py_slice_group del: of_nat_mult)

lemma concat_groups:
  assumes "0 < N"
  shows "concat (groups (int N) xs) = xs"
  using ceil_mult_ge [OF assms, of "length xs"]
  by (simp add: groups_pos [OF assms] concat_chunks)

lemma mset_completion_order:
  "mset (completion_order env i batch) = mset (enumerate i batch)"
  by (simp add: completion_order_def)

lemma mset_concat_map:
  "(\<And>k. mset (f k) = mset (g k)) \<Longrightarrow> mset (concat (map f ks)) = mset (concat (map g ks))"
  by (induction ks) simp_all

lemma mset_schedule:
  assumes "0 < N"
  shows "mset (schedule env (int N) xs) = mset (enumerate 0 xs)"
proof -
  let ?m = "(length xs + N - 1) div N"
  have "mset (schedule env (int N) xs) =
        mset (concat (map (\<lambda>k. take N (drop (k * N) (enumerate 0 xs))) [0..<?m]))"
    unfolding schedule_pos [OF assms]
    by (rule mset_concat_map) (simp add: mset_completion_order enumerate_take_drop)
  also have "\<dots> = mset (take (?m * N) (enumerate 0 xs))"
    by (simp only: concat_chunks)
  also have "\<dots> = mset (enumerate 0 xs)"
    using ceil_mult_ge [OF assms, of "length xs"] by simp
  finally show ?thesis .
qed

lemma gather_frame:
  assumes "gather env i batch (sc, w) = (r, sc', w')"
  shows "files w' = files w \<and> gathered w' = gathered w @ [batch] \<and> task_total w' = task_total w \<and>
     domain sc' = domain sc \<and> wordlist sc' = wordlist sc \<and> concurrency sc' = concurrency sc \<and>
     output_file sc' = output_file sc"
  using run_tasks_frame [of env "completion_order env i batch" sc "w\<lparr>gathered := gathered w @ [batch]\<rparr>" r sc' w']
    assms by (simp add: gather_def)

lemma scan_loop_frame:
  "scan_loop env xs n js (sc, w) = (r, sc', w') \<Longrightarrow>
     files w' = files w \<and> task_total w' = task_total w \<and>
     domain sc' = domain sc \<and> wordlist sc' = wordlist sc \<and> concurrency sc' = concurrency sc \<and>
     output_file sc' = output_file sc"
proof (induction js arbitrary: sc w)
  case Nil
  then show ?case by simp
next
  case (Cons i js)
  obtain r1 sc1 w1 where g: "gather env (nat i) (py_slice xs i (i + n)) (sc, w) = (r1, sc1, w1)"
    by (cases "gather env (nat i) (py_slice xs i (i + n)) (sc, w)") auto
  note f = gather_frame [OF g]
  show ?case
  proof (cases r1)
    case None
    with Cons.prems g have "scan_loop env xs n js (sc1, w1) = (r, sc', w')" by simp
    from Cons.IH [OF this] f show ?thesis by simp
  next
    case (Some e)
    with Cons.prems g f show ?thesis by auto
  qed
qed

lemma scan_loop_gathered:
  "scan_loop env xs n js (sc, w) = (r, sc', w') \<Longrightarrow>
     \<exists>m \<le> length js. gathered w' = gathered w @ map (\<lambda>i. py_slice xs i (i + n)) (take m js) \<and>
        (r = None \<longrightarrow> m = length js) \<and> (r \<noteq> None \<longrightarrow> 0 < m)"
proof (induction js arbitrary: sc w)
  case Nil
  then show ?case by simp
next
  case (Cons i js)
  obtain r1 sc1 w1 where g: "gather env (nat i) (py_slice xs i (i + n)) (sc, w) = (r1, sc1, w1)"
    by (cases "gather env (nat i) (py_slice xs i (i + n)) (sc, w)") auto
  note f = gather_frame [OF g]
  show ?case
  proof (cases r1)
    case None
    with Cons.prems g have "scan_loop env xs n js (sc1, w1) = (r, sc', w')" by simp
    from Cons.IH [OF this] obtain m where m: "m \<le> length js"
      "gathered w' = gathered w1 @ map (\<lambda>i. py_slice xs i (i + n)) (take m js)"
      "r = None \<longrightarrow> m = length js" by blast
    with f show ?thesis by (intro exI [of _ "Suc m"]) simp
  next
    case (Some e)
    with Cons.prems g f show ?thesis by (intro exI [of _ "Suc 0"]) auto
  qed
qed

lemma length_schedule:
  assumes "0 < N"
  shows "length (schedule env (int N) xs) = length xs"
proof -
  have "size (mset (schedule env (int N) xs)) = size (mset (enumerate 0 xs))"
    by (simp only: mset_schedule [OF assms])
  then show ?thesis by simp
qed

lemma length_groups:
  assumes "0 < N"
  shows "length (groups (int N) xs) = (length xs + N - 1) div N"
  by (simp add: groups_pos [OF assms])

lemma groups_nth:
  assumes "0 < N" and "k < length (groups (int N) xs)"
  shows "groups (int N) xs ! k = take N (drop (k * N) xs)"
  using assms by (simp add: groups_pos [OF assms(1)])

lemma group_sizes:
  assumes "0 < N" and "g \<in> set (groups (int N) xs)"
  shows "g \<noteq> [] \<and> length g \<le> N"
proof -
  from assms(2) obtain k where k: "k < (length xs + N - 1) div N" "g = take N (drop (k * N) xs)"
    by (auto simp: groups_pos [OF assms(1)])
  from lt_ceil_mult [OF assms(1) k(1)] k(2) assms(1) show ?thesis by auto
qed

lemma full_groups:
  assumes "0 < N" and "Suc k < length (groups (int N) xs)"
  shows "length (groups (int N) xs ! k) = N"
proof -
  from assms(2) have "Suc k < (length xs + N - 1) div N" by (simp add: length_groups [OF assms(1)])
  from lt_ceil_mult [OF assms(1) this] have "k * N + N < length xs" by simp
  moreover from assms(2) have "groups (int N) xs ! k = take N (drop (k * N) xs)"
    by (intro groups_nth [OF assms(1)]) simp
  ultimately show ?thesis by simp
qed

lemma single_group:
  assumes "0 < length xs" and "length xs < N"
  shows "groups (int N) xs = [xs]"
proof -
  from assms have "0 < N" by simp
  from groups_pos [OF this, of xs] ceil_one [OF assms] assms show ?thesis by simp
qed

lemma ceiling_nat:
  assumes "0 < N"
  shows "nat \<lceil>real L / real_of_int (int N)\<rceil> = (L + N - 1) div N"
proof -
  have "\<lceil>real_of_int (int L) / real_of_int (int N)\<rceil> = (int L + int N - 1) div int N"
    using assms by (intro ceiling_div_pos) simp
  then show ?thesis using nat_ceil [OF assms, of L] by simp
qed

lemma load_frame:
  assumes "load env p w = (wl, w1)"
  shows "files w1 = files w \<and> gathered w1 = gathered w \<and> console w1 = console w \<and>
         task_total w1 = task_total w \<and> task_completed w1 = task_completed w \<and>
         display w1 = display w"
  using assms by (auto simp: load_def split: read_result.splits)

lemma gather_ok:
  assumes "\<forall>t \<in> set (completion_order env i batch). task_exn env t = None"
    and "gather env i batch (sc, w) = (r, sc', w')"
  shows "r = None \<and>
         results sc' = results sc @ map (line_of env) (successful env (completion_order env i batch)) \<and>
         task_completed w' = task_completed w + length (completion_order env i batch) \<and>
         display w' = display w @ map (\<lambda>j. (j, task_total w))
            [Suc (task_completed w)..<Suc (task_completed w + length (completion_order env i batch))]"
  using run_tasks_ok [OF assms(1), of sc "w\<lparr>gathered := gathered w @ [batch]\<rparr>" r sc' w'] assms(2)
  by (simp add: gather_def)

lemma gather_fails:
  assumes "\<exists>t \<in> set (completion_order env i batch). task_exn env t \<noteq> None"
    and "gather env i batch (sc, w) = (r, sc', w')"
  shows "r \<noteq> None"
  using run_tasks_fails [OF assms(1), of sc "w\<lparr>gathered := gathered w @ [batch]\<rparr>" r sc' w'] assms(2)
  by (simp add: gather_def)

lemma scan_loop_append:
  "scan_loop env xs n (js @ ks) st =
     (case scan_loop env xs n js st of
        (Some e, st') \<Rightarrow> (Some e, st')
      | (None, st') \<Rightarrow> scan_loop env xs n ks st')"
  by (induction js arbitrary: st) (auto split: prod.splits option.splits)

lemma scan_loop_ok:
  assumes "\<forall>t \<in> set (concat (map (\<lambda>i. completion_order env (nat i) (py_slice xs i (i + n))) js)).
             task_exn env t = None"
    and "scan_loop env xs n js (sc, w) = (r, sc', w')"
  shows "r = None \<and>
         results sc' = results sc @ map (line_of env)
            (successful env (concat (map (\<lambda>i. completion_order env (nat i) (py_slice xs i (i + n))) js))) \<and>
         task_completed w' = task_completed w
            + length (concat (map (\<lambda>i. completion_order env (nat i) (py_slice xs i (i + n))) js)) \<and>
         display w' = display w @ map (\<lambda>j. (j, task_total w))
            [Suc (task_completed w)..<Suc (task_completed w
               + length (concat (map (\<lambda>i. completion_order env (nat i) (py_slice xs i (i + n))) js)))] \<and>
         gathered w' = gathered w @ map (\<lambda>i. py_slice xs i (i + n)) js"
  using assms
proof (induction js arbitrary: sc w)
  case Nil
  then show ?case by (simp add: successful_def)
next
  case (Cons i js)
  let ?co = "\<lambda>i. completion_order env (nat i) (py_slice xs i (i + n))"
  obtain r1 sc1 w1 where g: "gather env (nat i) (py_slice xs i (i + n)) (sc, w) = (r1, sc1, w1)"
    by (cases "gather env (nat i) (py_slice xs i (i + n)) (sc, w)") auto
  from Cons.prems(1) have a1: "\<forall>t \<in> set (?co i). task_exn env t = None" by simp
  note o = gather_ok [OF a1 g]
  note f = gather_frame [OF g]
  from o Cons.prems(2) g have rest: "scan_loop env xs n js (sc1, w1) = (r, sc', w')" by simp
  from Cons.prems(1) have "\<forall>t \<in> set (concat (map ?co js)). task_exn env t = None"
    by simp
  note ih = Cons.IH [OF this rest]
  have succ: "successful env (concat (map ?co (i # js))) =
      successful env (?co i) @ successful env (concat (map ?co js))"
    by (simp add: successful_def)
  have up: "[Suc c..<Suc (c + (a + b))] = [Suc c..<Suc (c + a)] @ [Suc (c + a)..<Suc (c + a + b)]"
    for a b c :: nat
    using upt_add_eq_append [of "Suc c" "Suc (c + a)" b] by (simp add: add.assoc)
  have "display w' = display w @ map (\<lambda>j. (j, task_total w))
      [Suc (task_completed w)..<Suc (task_completed w + length (concat (map ?co (i # js))))]"
    using ih o f by (simp add: up del: upt_Suc)
  moreover have "gathered w' = gathered w @ map (\<lambda>i. py_slice xs i (i + n)) (i # js)"
    using ih f by simp
  ultimately show ?case using ih o succ by (simp add: add.assoc)
qed

lemma save_results_frame:
  assumes "save_results env p (sc, w) = (r, sc', w')"
  shows "sc' = sc \<and> gathered w' = gathered w \<and> task_total w' = task_total w \<and>
         task_completed w' = task_completed w \<and> display w' = display w \<and>
         files w' = (if open_error env p = None
                     then (files w)(p \<mapsto> (''utf-8'', concat (map (\<lambda>l. l @ [CHR 0x0A]) (results sc))))
                     else files w) \<and>
         r = (if open_error env p = None
              then map_option MarkupError (markup_error env (saved_message p)) else None)"
  using assms by (auto simp: save_results_def console_print_def split: option.splits)

lemma in_group:
  assumes "0 < N"
  shows "t \<in> set (completion_order env (j * N) (take N (drop (j * N) xs))) \<longleftrightarrow>
         j * N \<le> fst t \<and> fst t < j * N + N \<and> fst t < length xs \<and> snd t = xs ! fst t"
proof -
  have "j * N \<le> fst t \<Longrightarrow> fst t < j * N + N \<Longrightarrow> fst t < length xs \<Longrightarrow>
      take N (drop (j * N) xs) ! (fst t - j * N) = xs ! fst t"
    by simp
  then show ?thesis
    by (auto simp: completion_order_def in_set_enumerate_eq min_def)
qed

lemma no_task_fails_group:
  assumes "0 < N" and "no_task_fails env xs b" and "j * N + N \<le> b \<or> length xs \<le> b"
    and "t \<in> set (completion_order env (j * N) (take N (drop (j * N) xs)))"
  shows "task_exn env t = None"
proof -
  from assms(4) have t: "fst t < j * N + N" "fst t < length xs" "snd t = xs ! fst t"
    by (simp_all add: in_group [OF assms(1)])
  with assms(3) have "fst t < b" by auto
  with assms(2) have "task_exn env (fst t, xs ! fst t) = None" by (simp add: no_task_fails_def)
  with t(3) show ?thesis by (metis prod.collapse)
qed

lemma group_of_position:
  assumes "0 < (N::nat)" and "k < L"
  shows "k div N < (L + N - 1) div N"
proof -
  from assms(2) have "k \<le> L - 1" by simp
  then have "k div N \<le> (L - 1) div N" by (rule div_le_mono)
  moreover from assms have "(L + N - 1) div N = (L - 1) div N + 1"
    using div_add_self2 [of N "L - 1"] by simp
  ultimately show ?thesis by simp
qed

lemma scan_ok:
  assumes n: "0 < concurrency sc"
    and u: "no_task_fails env (generate_subdomains sc) (length (generate_subdomains sc))"
    and s: "scan env (sc, w) = (r, sc', w')"
  shows "results sc' = results sc @ map (line_of env)
        (successful env (schedule env (concurrency sc) (generate_subdomains sc))) \<and>
     task_total w' = length (generate_subdomains sc) \<and>
     task_completed w' = length (generate_subdomains sc) \<and>
     display w' = display w @ map (\<lambda>j. (j, length (generate_subdomains sc)))
        [1..<Suc (length (generate_subdomains sc))] \<and>
     gathered w' = gathered w @ groups (concurrency sc) (generate_subdomains sc) \<and>
     files w' = (case output_file sc of
                   None \<Rightarrow> files w
                 | Some p \<Rightarrow>
                     if p \<noteq> [] \<and> open_error env p = None
                     then (files w)(p \<mapsto> (''utf-8'', concat (map (\<lambda>l. l @ [CHR 0x0A]) (results sc'))))
                     else files w) \<and>
     r = (case output_file sc of
            None \<Rightarrow> None
          | Some p \<Rightarrow>
              if p \<noteq> [] \<and> open_error env p = None
              then map_option MarkupError (markup_error env (saved_message p))
              else None)"
proof -
  let ?xs = "generate_subdomains sc"
  let ?n = "concurrency sc"
  let ?w1 = "w\<lparr>task_total := length ?xs, task_completed := 0\<rparr>"
  let ?co = "\<lambda>i. completion_order env (nat i) (py_slice ?xs i (i + ?n))"
  from n have "1 \<le> ?n" by simp
  then obtain N where N: "?n = int N" "0 < N" by (rule pos_int_nat)
  obtain js where js: "py_range 0 (int (length ?xs)) ?n = Inr js"
    using py_range_pos [OF N(2), of "length ?xs"] N(1) by simp
  have sch: "schedule env ?n ?xs = concat (map ?co js)" by (simp add: schedule_def js)
  have grp: "groups ?n ?xs = map (\<lambda>i. py_slice ?xs i (i + ?n)) js" by (simp add: groups_def js)
  have len: "length (schedule env ?n ?xs) = length ?xs"
    using length_schedule [OF N(2)] N(1) by simp
  have nr: "\<forall>t \<in> set (concat (map ?co js)). task_exn env t = None"
  proof
    fix t assume t: "t \<in> set (concat (map ?co js))"
    then have "t \<in># mset (schedule env (int N) ?xs)" using sch N(1) by simp
    then have e: "t \<in> set (enumerate 0 ?xs)" by (simp add: mset_schedule [OF N(2)])
    then have "fst t < length ?xs" "snd t = ?xs ! fst t" by (auto simp: in_set_enumerate_eq)
    with u have "task_exn env (fst t, snd t) = None" by (simp add: no_task_fails_def)
    then show "task_exn env t = None" by simp
  qed
  obtain r2 sc2 w2 where l: "scan_loop env ?xs ?n js (sc, ?w1) = (r2, sc2, w2)"
    by (cases "scan_loop env ?xs ?n js (sc, ?w1)") auto
  note o = scan_loop_ok [OF nr l]
  note f = scan_loop_frame [OF l]
  have base: "results sc2 = results sc @ map (line_of env) (successful env (schedule env ?n ?xs))"
    "task_total w2 = length ?xs" "task_completed w2 = length ?xs"
    "display w2 = display w @ map (\<lambda>j. (j, length ?xs)) [1..<Suc (length ?xs)]"
    "files w2 = files w" "output_file sc2 = output_file sc"
    "gathered w2 = gathered w @ groups ?n ?xs"
    using o f len by (simp_all add: sch [symmetric] grp del: upt_Suc)
  show ?thesis
  proof (cases "output_file sc")
    case None
    with s js l o have "r = None" "sc' = sc2" "w' = w2" by (simp_all add: scan_def Let_def)
    with base None show ?thesis by simp
  next
    case (Some p)
    show ?thesis
    proof (cases "p = []")
      case True
      with Some s js l o have "r = None" "sc' = sc2" "w' = w2" by (simp_all add: scan_def Let_def)
      with base Some True show ?thesis by simp
    next
      case False
      with Some s js l o have sv: "save_results env p (sc2, w2) = (r, sc', w')"
        by (simp add: scan_def Let_def)
      from save_results_frame [OF sv] base Some False show ?thesis by simp
    qed
  qed
qed

lemma scan_prefix:
  assumes "scan env (sc, w) = (r, sc', w')"
  shows "\<exists>m \<le> length (groups (concurrency sc) (generate_subdomains sc)).
           gathered w' = gathered w @ take m (groups (concurrency sc) (generate_subdomains sc)) \<and>
           (r = None \<longrightarrow> m = length (groups (concurrency sc) (generate_subdomains sc)))"
proof -
  let ?xs = "generate_subdomains sc"
  let ?n = "concurrency sc"
  let ?w1 = "w\<lparr>task_total := length ?xs, task_completed := 0\<rparr>"
  show ?thesis
  proof (cases "py_range 0 (int (length ?xs)) ?n")
    case (Inl e)
    with assms show ?thesis by (auto simp: scan_def Let_def groups_def)
  next
    case (Inr js)
    obtain r2 sc2 w2 where l: "scan_loop env ?xs ?n js (sc, ?w1) = (r2, sc2, w2)"
      by (cases "scan_loop env ?xs ?n js (sc, ?w1)") auto
    have grp: "groups ?n ?xs = map (\<lambda>i. py_slice ?xs i (i + ?n)) js" by (simp add: groups_def Inr)
    from scan_loop_gathered [OF l] obtain m where m: "m \<le> length js"
      "gathered w2 = gathered w @ map (\<lambda>i. py_slice ?xs i (i + ?n)) (take m js)"
      "r2 = None \<longrightarrow> m = length js"
      by auto
    have g: "gathered w' = gathered w2 \<and> (r = None \<longrightarrow> r2 = None)"
    proof (cases r2)
      case (Some e)
      with assms Inr l show ?thesis by (simp add: scan_def Let_def)
    next
      case None
      show ?thesis
      proof (cases "output_file sc")
        case None
        with assms Inr l \<open>r2 = None\<close> show ?thesis by (simp add: scan_def Let_def)
      next
        case (Some p)
        show ?thesis
        proof (cases "p = []")
          case True
          with assms Inr l \<open>r2 = None\<close> Some show ?thesis by (simp add: scan_def Let_def)
        next
          case False
          with assms Inr l \<open>r2 = None\<close> Some have "save_results env p (sc2, w2) = (r, sc', w')"
            by (simp add: scan_def Let_def)
          from save_results_frame [OF this] \<open>r2 = None\<close> show ?thesis by simp
        qed
      qed
    qed
    from m g show ?thesis by (intro exI [of _ m]) (simp add: grp take_map)
  qed
qed

lemma scan_stops:
  assumes N: "0 < N" "concurrency sc = int N"
    and k: "k < length (generate_subdomains sc)"
      "task_exn env (k, generate_subdomains sc ! k) \<noteq> None"
    and c: "no_task_fails env (generate_subdomains sc) (k div N * N)"
    and s: "scan env (sc, w) = (r, sc', w')"
  shows "r \<noteq> None \<and> files w' = files w \<and>
         Suc (k div N) \<le> length (groups (int N) (generate_subdomains sc)) \<and>
         gathered w' = gathered w @ take (Suc (k div N)) (groups (int N) (generate_subdomains sc))"
proof -
  let ?xs = "generate_subdomains sc"
  let ?n = "concurrency sc"
  let ?w1 = "w\<lparr>task_total := length ?xs, task_completed := 0\<rparr>"
  let ?M = "(length ?xs + N - 1) div N"
  let ?m = "k div N"
  let ?f = "\<lambda>j. int (j * N)"
  let ?sl = "\<lambda>i. py_slice ?xs i (i + int N)"
  have mM: "?m < ?M" by (rule group_of_position [OF N(1) k(1)])
  have js: "py_range 0 (int (length ?xs)) ?n = Inr (map ?f [0..<?M])"
    using py_range_pos [OF N(1), of "length ?xs"] N(2) by simp
  have split: "map ?f [0..<?M] = map ?f [0..<?m] @ ?f ?m # map ?f [Suc ?m..<?M]"
  proof -
    have "[0..<?M] = [0..<?m] @ [?m..<?M]"
      using mM upt_add_eq_append [of 0 ?m "?M - ?m"] by simp
    then have "[0..<?M] = [0..<?m] @ ?m # [Suc ?m..<?M]"
      using mM by (simp add: upt_conv_Cons)
    then show ?thesis by (metis list.simps(9) map_append)
  qed
  obtain r1 sc1 w1 where l1: "scan_loop env ?xs (int N) (map ?f [0..<?m]) (sc, ?w1) = (r1, sc1, w1)"
    by (cases "scan_loop env ?xs (int N) (map ?f [0..<?m]) (sc, ?w1)") auto
  have cl: "\<forall>t \<in> set (concat (map (\<lambda>i. completion_order env (nat i) (?sl i)) (map ?f [0..<?m]))).
      task_exn env t = None"
  proof
    fix t
    assume "t \<in> set (concat (map (\<lambda>i. completion_order env (nat i) (?sl i)) (map ?f [0..<?m])))"
    then obtain j where j: "j < ?m" "t \<in> set (completion_order env (j * N) (take N (drop (j * N) ?xs)))"
      by (auto simp: py_slice_group simp del: of_nat_mult)
    from j(1) have "Suc j * N \<le> ?m * N" by (intro mult_le_mono1) simp
    then have "j * N + N \<le> ?m * N" by simp
    then show "task_exn env t = None"
      using no_task_fails_group [OF N(1) c _ j(2)] by simp
  qed
  note o1 = scan_loop_ok [OF cl l1]
  note f1 = scan_loop_frame [OF l1]
  obtain r2 sc2 w2 where g: "gather env (nat (?f ?m)) (?sl (?f ?m)) (sc1, w1) = (r2, sc2, w2)"
    by (cases "gather env (nat (?f ?m)) (?sl (?f ?m)) (sc1, w1)") auto
  have "(k, ?xs ! k) \<in> set (completion_order env (?m * N) (take N (drop (?m * N) ?xs)))"
  proof -
    have "?m * N \<le> k" by simp
    moreover have "k < ?m * N + N" using N(1) by (metis dividend_less_div_times add.commute)
    ultimately show ?thesis using k(1) by (simp add: in_group [OF N(1)])
  qed
  with k(2) have "\<exists>t \<in> set (completion_order env (nat (?f ?m)) (?sl (?f ?m))). task_exn env t \<noteq> None"
    by (auto simp: py_slice_group simp del: of_nat_mult)
  from gather_fails [OF this g] obtain e where r2: "r2 = Some e" by auto
  note f2 = gather_frame [OF g]
  from g have g': "gather env (?m * N) (?sl (?f ?m)) (sc1, w1) = (r2, sc2, w2)"
    by (simp del: of_nat_mult)
  have l: "scan_loop env ?xs (int N) (map ?f [0..<?M]) (sc, ?w1) = (Some e, sc2, w2)"
    unfolding split by (simp add: scan_loop_append l1 o1 g' r2 del: of_nat_mult)
  from s js l N(2) have res: "r = Some e" "w' = w2" by (simp_all add: scan_def Let_def)
  have grp: "groups (int N) ?xs = map ?sl (map ?f [0..<?M])"
    using js N(2) by (simp add: groups_def)
  have "take (Suc ?m) (groups (int N) ?xs) = map ?sl (map ?f [0..<?m]) @ [?sl (?f ?m)]"
    unfolding grp split by (simp add: take_map [symmetric])
  moreover have "gathered w2 = gathered w @ map ?sl (map ?f [0..<?m]) @ [?sl (?f ?m)]"
    using o1 f2 by simp
  moreover have "Suc ?m \<le> length (groups (int N) ?xs)" using mM by (simp add: grp)
  moreover have "files w2 = files w" using f1 f2 by simp
  ultimately show ?thesis using res by simp
qed

lemma insort_key_stable:
  fixes f :: "'a \<Rightarrow> nat" and g :: "'a \<Rightarrow> nat"
  assumes "sorted_wrt (\<lambda>x y. f x < f y \<or> f x = f y \<and> g x < g y) ys"
    and "\<forall>y \<in> set ys. g x < g y"
  shows "sorted_wrt (\<lambda>x y. f x < f y \<or> f x = f y \<and> g x < g y) (insort_key f x ys)"
  using assms
proof (induction ys)
  case Nil
  then show ?case by simp
next
  case (Cons y ys)
  show ?case
  proof (cases "f x \<le> f y")
    case True
    have "\<forall>z \<in> set (y # ys). f x < f z \<or> f x = f z \<and> g x < g z"
    proof
      fix z assume z: "z \<in> set (y # ys)"
      with Cons.prems(1) have "f y \<le> f z" by auto
      with True have "f x \<le> f z" by simp
      moreover from z Cons.prems(2) have "g x < g z" by auto
      ultimately show "f x < f z \<or> f x = f z \<and> g x < g z" by auto
    qed
    with True Cons.prems(1) show ?thesis by simp
  next
    case False
    from Cons.prems have "sorted_wrt (\<lambda>x y. f x < f y \<or> f x = f y \<and> g x < g y) (insort_key f x ys)"
      by (intro Cons.IH) simp_all
    with False Cons.prems(1) show ?thesis by (auto simp: set_insort_key)
  qed
qed

lemma sort_key_stable:
  fixes f :: "'a \<Rightarrow> nat" and g :: "'a \<Rightarrow> nat"
  assumes "sorted_wrt (\<lambda>x y. g x < g y) xs"
  shows "sorted_wrt (\<lambda>x y. f x < f y \<or> f x = f y \<and> g x < g y) (sort_key f xs)"
  using assms
proof (induction xs)
  case Nil
  then show ?case by simp
next
  case (Cons x xs)
  then have "sorted_wrt (\<lambda>x y. f x < f y \<or> f x = f y \<and> g x < g y) (sort_key f xs)"
    and "\<forall>y \<in> set (sort_key f xs). g x < g y"
    by simp_all
  then show ?case by (simp add: insort_key_stable)
qed

lemma enumerate_increasing: "sorted_wrt (\<lambda>x y. fst x < fst y) (enumerate i ys)"
  by (induction ys arbitrary: i) (auto simp: in_set_enumerate_eq)

lemma group_index:
  assumes "0 < (N::nat)" and "j * N \<le> k" and "k < j * N + N"
  shows "k div N = j"
  using assms by (intro div_nat_eqI) (simp_all add: mult.commute)

lemma group_sorted:
  assumes "0 < N"
  shows "sorted_wrt (before env N) (completion_order env (j * N) (take N (drop (j * N) xs)))"
proof -
  let ?ts = "completion_order env (j * N) (take N (drop (j * N) xs))"
  have "sorted_wrt (\<lambda>t u. finished (answer env (fst t)) < finished (answer env (fst u)) \<or>
            finished (answer env (fst t)) = finished (answer env (fst u)) \<and> fst t < fst u) ?ts"
    unfolding completion_order_def case_prod_unfold
    by (rule sort_key_stable [of fst _ "\<lambda>t. finished (answer env (fst t))"])
      (rule enumerate_increasing)
  moreover have "fst t div N = j" if "t \<in> set ?ts" for t
    using that group_index [OF assms, of j "fst t"] by (simp add: in_group [OF assms])
  ultimately show ?thesis
    by (rule_tac sorted_wrt_mono_rel [rotated]) (auto simp: before_def)
qed

lemma schedule_sorted:
  assumes "0 < N"
  shows "sorted_wrt (before env N) (schedule env (int N) xs)"
proof -
  let ?G = "\<lambda>j. completion_order env (j * N) (take N (drop (j * N) xs))"
  have "sorted_wrt (before env N) (concat (map ?G [0..<m])) \<and>
        (\<forall>t \<in> set (concat (map ?G [0..<m])). fst t div N < m)" for m
  proof (induction m)
    case 0
    then show ?case by simp
  next
    case (Suc m)
    have g: "fst t div N = m" if "t \<in> set (?G m)" for t
      using that group_index [OF assms, of m "fst t"] by (simp add: in_group [OF assms])
    have "\<forall>t \<in> set (concat (map ?G [0..<m])). \<forall>u \<in> set (?G m). before env N t u"
      using Suc g by (auto simp: before_def)
    with Suc group_sorted [OF assms, of env m xs] g show ?case
      by (auto simp: sorted_wrt_append less_Suc_eq)
  qed
  then show ?thesis by (simp add: schedule_pos [OF assms])
qed

lemma digit_char:
  assumes "(n::nat) < 10"
  shows "is_digit (char_of (48 + n))"
proof -
  have "\<forall>n \<in> set [0..<10]. is_digit (char_of (48 + (n::nat)))" by code_simp
  with assms show ?thesis by simp
qed

lemma str_nat_digits: "list_all is_digit (str_nat n) \<and> str_nat n \<noteq> []"
proof (induction n rule: str_nat.induct)
  case (1 n)
  show ?case
  proof (cases "n < 10")
    case True
    then show ?thesis by (subst str_nat.simps, subst str_nat.simps) (simp add: digit_char)
  next
    case False
    with 1 have "list_all is_digit (str_nat (n div 10))" by simp
    moreover have "is_digit (char_of (48 + n mod 10))" by (rule digit_char) simp
    ultimately show ?thesis using False
      by (subst str_nat.simps, subst (2) str_nat.simps) simp
  qed
qed

lemma format_2f_two_decimals: "two_decimals (format_2f x)"
proof -
  define q where "q = nat (round_half_even (\<bar>x\<bar> * 100))"
  define I where "I = str_nat (q div 100)"
  define a where "a = char_of (48 + q mod 100 div 10)"
  define b where "b = char_of (48 + q mod 10)"
  have I: "list_all is_digit I" "I \<noteq> []" using str_nat_digits [of "q div 100"] by (simp_all add: I_def)
  have a: "is_digit a" unfolding a_def by (rule digit_char) simp
  have b: "is_digit b" unfolding b_def by (rule digit_char) simp
  have f: "format_2f x = (if x < 0 then ''-'' else []) @ I @ ''.'' @ [a, b]"
    by (simp add: format_2f_def Let_def q_def I_def a_def b_def)
  from I have h: "take 1 I \<noteq> ''-''"
    by (cases I) (auto simp: is_digit_def)
  have u: "(if take 1 (format_2f x) = ''-'' then drop 1 (format_2f x) else format_2f x) = I @ ''.'' @ [a, b]"
  proof (cases "x < 0")
    case True
    then show ?thesis by (simp add: f)
  next
    case False
    with h I(2) show ?thesis by (cases I) (simp_all add: f)
  qed
  show ?thesis
    unfolding two_decimals_def u Let_def using I a b by (cases I) (simp_all add: nth_append)
qed

lemma handle_frame:
  "handle e w = (r, w') \<Longrightarrow> files w' = files w \<and> gathered w' = gathered w"
  by (auto simp: handle_def split: if_splits)

lemma raises_task_exn: "raises (reply (answer env k)) \<Longrightarrow> task_exn env (k, s) \<noteq> None"
  by (auto simp: raises_def task_exn_def split: sum.splits)

lemma mset_successful:
  "mset xs = mset ys \<Longrightarrow> mset (successful env xs) = mset (successful env ys)"
  by (simp add: successful_def)

lemma successful_nonempty:
  "t \<in> set (successful env ts) \<Longrightarrow> outcome_addresses (reply (answer env (fst t))) \<noteq> []"
  by (auto simp: successful_def)

lemma example_concurrency: "1 \<le> concurrency example_scanner"
  by (simp add: example_scanner_def)

lemma example_no_task_fails:
  "no_task_fails example_env (generate_subdomains example_scanner)
     (length (generate_subdomains example_scanner))"
  by code_simp

lemma example_scan:
  "scan example_env (example_scanner, init_world) =
     (fst (scan example_env (example_scanner, init_world)),
      fst (snd (scan example_env (example_scanner, init_world))),
      snd (snd (scan example_env (example_scanner, init_world))))"
  by simp

lemma example_groups:
  "groups (concurrency example_scanner) (generate_subdomains example_scanner) =
     [[''www.example.com'', ''doesnotexist123.example.com''],
      [''mail.example.com'', ''ftp.example.com''], [''api.example.com'']]"
  by code_simp

lemma example_schedule:
  "successful example_env
     (schedule example_env (concurrency example_scanner) (generate_subdomains example_scanner)) =
     [(0, ''www.example.com''), (3, ''ftp.example.com''), (2, ''mail.example.com''),
      (4, ''api.example.com'')]"
  by code_simp

lemma example_lines:
  "map (line_of example_env)
      [(0, ''www.example.com''), (3, ''ftp.example.com''), (2, ''mail.example.com''),
       (4, ''api.example.com'')] =
     [''www.example.com -> 93.184.216.34, 2606:2800:220:1::1 0.05'',
      ''ftp.example.com -> 93.184.216.36 0.04'',
      ''mail.example.com -> 93.184.216.35 0.06'',
      ''api.example.com -> 93.184.216.37 0.12'']"
  by code_simp

lemma interrupted_load:
  "load interrupted_env ''words.txt'' init_world =
     ([''www'', ''doesnotexist123'', ''mail'', ''ftp'', ''api''], init_world)"
  by (simp add: load_def interrupted_env_def example_env_def strip_def)

lemma interrupted_candidates:
  "generate_subdomains \<lparr>domain = ''example.com'',
      wordlist = [''www'', ''doesnotexist123'', ''mail'', ''ftp'', ''api''], concurrency = 2,
      output_file = Some ''out.txt'', results = []\<rparr> =
     [''www.example.com'', ''doesnotexist123.example.com'', ''mail.example.com'',
      ''ftp.example.com'', ''api.example.com'']"
  by code_simp

section \<open>The name generator\<close>

lemma generate_subdomains_filter:
  "generate_subdomains sc =
     map (\<lambda>word. word @ ''.'' @ domain sc) (filter (\<lambda>word. word \<noteq> []) (wordlist sc))"
proof -
  have "concat (map (\<lambda>word. if word \<noteq> [] then [word @ ''.'' @ d] else []) ws) =
        map (\<lambda>word. word @ ''.'' @ d) (filter (\<lambda>word. word \<noteq> []) ws)" for d :: string and ws
    by (induction ws) simp_all
  then show ?thesis by (simp add: generate_subdomains_def)
qed

lemma count_list_label:
  "count_list (map (\<lambda>word. word @ d) ws) (l @ d) = count_list ws l"
  by (induction ws) simp_all

text \<open>
  C7. When every label is non-empty, \<open>generate_subdomains\<close> gives one candidate per
  label, \<open>label.domain\<close>, in the order of the labels; nothing is deduplicated: a label
  occurs as often among the candidates as in the wordlist.
\<close>

theorem generate_subdomains_one_per_label:
  assumes "\<forall>word \<in> set (wordlist sc). word \<noteq> []"
  shows "generate_subdomains sc = map (\<lambda>word. word @ ''.'' @ domain sc) (wordlist sc) \<and>
         length (generate_subdomains sc) = length (wordlist sc) \<and>
         (\<forall>i < length (wordlist sc). generate_subdomains sc ! i = wordlist sc ! i @ ''.'' @ domain sc) \<and>
         (\<forall>label. count_list (generate_subdomains sc) (label @ ''.'' @ domain sc) =
                   count_list (wordlist sc) label)"
proof -
  from assms have "filter (\<lambda>word. word \<noteq> []) (wordlist sc) = wordlist sc"
    by (simp add: filter_id_conv)
  then have g: "generate_subdomains sc = map (\<lambda>word. word @ ''.'' @ domain sc) (wordlist sc)"
    by (simp add: generate_subdomains_filter)
  then show ?thesis using count_list_label [of "''.'' @ domain sc" "wordlist sc"] by simp
qed

theorem generate_subdomains_one_per_label_witness:
  "[] \<notin> set [''www'', ''mail'', ''www''] \<and>
   generate_subdomains \<lparr>domain = ''example.com'', wordlist = [''www'', ''mail'', ''www''],
       concurrency = 50, output_file = None, results = []\<rparr> =
     [''www.example.com'', ''mail.example.com'', ''www.example.com'']"
  using generate_subdomains_one_per_label [of "\<lparr>domain = ''example.com'',
      wordlist = [''www'', ''mail'', ''www''], concurrency = 50, output_file = None, results = []\<rparr>"]
  by simp

text \<open>
  C9. \<open>generate_subdomains\<close> drops the empty labels: with an empty string in the
  wordlist there are strictly fewer candidates than labels, and there is one candidate
  per label exactly when no label is empty.
\<close>

theorem generate_subdomains_drops_empty:
  "generate_subdomains sc =
     map (\<lambda>word. word @ ''.'' @ domain sc) (filter (\<lambda>word. word \<noteq> []) (wordlist sc)) \<and>
   ([] \<in> set (wordlist sc) \<longrightarrow> length (generate_subdomains sc) < length (wordlist sc)) \<and>
   (length (generate_subdomains sc) = length (wordlist sc) \<longleftrightarrow> [] \<notin> set (wordlist sc))"
proof -
  have l: "length (generate_subdomains sc) = length (filter (\<lambda>word. word \<noteq> []) (wordlist sc))"
    by (simp add: generate_subdomains_filter)
  have a: "[] \<in> set (wordlist sc) \<Longrightarrow> length (filter (\<lambda>word. word \<noteq> []) (wordlist sc)) < length (wordlist sc)"
    by (rule length_filter_less [of "[]"]) simp_all
  have b: "[] \<notin> set (wordlist sc) \<Longrightarrow> filter (\<lambda>word. word \<noteq> []) (wordlist sc) = wordlist sc"
    by (auto simp: filter_id_conv)
  from a b l show ?thesis
    using generate_subdomains_filter [of sc] by (cases "[] \<in> set (wordlist sc)") auto
qed

theorem generate_subdomains_drops_empty_witness:
  "[] \<in> set [''www'', [], ''mail''] \<and>
   generate_subdomains \<lparr>domain = ''example.com'', wordlist = [''www'', [], ''mail''],
       concurrency = 50, output_file = None, results = []\<rparr> =
     [''www.example.com'', ''mail.example.com''] \<and>
   length (generate_subdomains \<lparr>domain = ''example.com'', wordlist = [''www'', [], ''mail''],
       concurrency = 50, output_file = None, results = []\<rparr>) < length [''www'', [], ''mail'' :: string]"
  using generate_subdomains_drops_empty [of "\<lparr>domain = ''example.com'',
      wordlist = [''www'', [], ''mail''], concurrency = 50, output_file = None, results = []\<rparr>"]
  by simp

section \<open>The resolver\<close>

text \<open>
  C3. Whatever error the lookup raises (any Python \<open>Exception\<close>: a DNS error such as a
  nonexistent name or a timeout, or any other one), \<open>resolve\<close> returns normally with an
  empty address list. A DNS error leaves the world untouched; any other error adds one
  message to the error log and changes nothing else.
\<close>

theorem resolve_normalises_errors:
  "is_Exception e \<Longrightarrow>
     resolve (Inl e) subdomain w =
       (Inr [],
        if is_DNSError e then w
        else w\<lparr>errlog := errlog w @ [''Error resolving '' @ subdomain @ '': '' @ str_exn e]\<rparr>)"
  by (simp add: resolve_def)

theorem resolve_normalises_errors_witness:
  "is_Exception (DNSError ''Domain name not found'') \<and> is_Exception (OtherException ''boom'') \<and>
   resolve (Inl (DNSError ''Domain name not found'')) ''www.example.com'' init_world = (Inr [], init_world) \<and>
   resolve (Inl (OtherException ''boom'')) ''www.example.com'' init_world =
     (Inr [], init_world\<lparr>errlog := [''Error resolving www.example.com: boom'']\<rparr>)"
  using resolve_normalises_errors [of "DNSError ''Domain name not found''" "''www.example.com''" init_world]
    resolve_normalises_errors [of "OtherException ''boom''" "''www.example.com''" init_world]
  by (simp add: init_world_def)

section \<open>The batch scheduler\<close>

text \<open>
  C1, as amended. For a concurrency limit \<open>N \<ge> 1\<close> the loop of \<open>scan\<close> cuts the \<open>L\<close>
  candidates into exactly \<open>\<lceil>L / N\<rceil>\<close> consecutive groups: their concatenation is the
  candidate list, each group is non-empty and has at most \<open>N\<close> candidates, and every
  group but the last has exactly \<open>N\<close>. The groups handed to \<open>gather\<close> are always an
  initial segment of these groups, in this order: all of them when the scan returns
  normally, and all of them when no task fails. When \<open>N\<close> is larger than \<open>L\<close> and there
  is at least one candidate, there is exactly one group, holding all the candidates;
  with no candidate there is no group at all.
\<close>

theorem scan_groups:
  assumes n: "1 \<le> concurrency sc"
    and s: "scan env (sc, w) = (r, sc', w')"
  shows "length (groups (concurrency sc) (generate_subdomains sc)) =
           nat \<lceil>real (length (generate_subdomains sc)) / real_of_int (concurrency sc)\<rceil> \<and>
         concat (groups (concurrency sc) (generate_subdomains sc)) = generate_subdomains sc \<and>
         (\<forall>g \<in> set (groups (concurrency sc) (generate_subdomains sc)).
            g \<noteq> [] \<and> int (length g) \<le> concurrency sc) \<and>
         (\<forall>k. Suc k < length (groups (concurrency sc) (generate_subdomains sc)) \<longrightarrow>
            int (length (groups (concurrency sc) (generate_subdomains sc) ! k)) = concurrency sc) \<and>
         (\<exists>m \<le> length (groups (concurrency sc) (generate_subdomains sc)).
            gathered w' = gathered w @ take m (groups (concurrency sc) (generate_subdomains sc)) \<and>
            (r = None \<longrightarrow> m = length (groups (concurrency sc) (generate_subdomains sc)))) \<and>
         (no_task_fails env (generate_subdomains sc) (length (generate_subdomains sc)) \<longrightarrow>
            gathered w' = gathered w @ groups (concurrency sc) (generate_subdomains sc)) \<and>
         (generate_subdomains sc \<noteq> [] \<and> int (length (generate_subdomains sc)) < concurrency sc \<longrightarrow>
            groups (concurrency sc) (generate_subdomains sc) = [generate_subdomains sc]) \<and>
         (generate_subdomains sc = [] \<longrightarrow> groups (concurrency sc) (generate_subdomains sc) = [])"
proof -
  let ?xs = "generate_subdomains sc"
  from n obtain N where N: "concurrency sc = int N" "0 < N" by (rule pos_int_nat)
  have a: "length (groups (int N) ?xs) = nat \<lceil>real (length ?xs) / real_of_int (int N)\<rceil>"
    by (simp only: length_groups [OF N(2)] ceiling_nat [OF N(2)])
  have b: "concat (groups (int N) ?xs) = ?xs" by (rule concat_groups [OF N(2)])
  have c: "\<forall>g \<in> set (groups (int N) ?xs). g \<noteq> [] \<and> int (length g) \<le> int N"
    using group_sizes [OF N(2)] by auto
  have d: "\<forall>k. Suc k < length (groups (int N) ?xs) \<longrightarrow>
      int (length (groups (int N) ?xs ! k)) = int N"
    using full_groups [OF N(2)] by auto
  have e: "\<exists>m \<le> length (groups (int N) ?xs).
      gathered w' = gathered w @ take m (groups (int N) ?xs) \<and>
      (r = None \<longrightarrow> m = length (groups (int N) ?xs))"
    using scan_prefix [OF s] N(1) by simp
  have f: "no_task_fails env ?xs (length ?xs) \<longrightarrow> gathered w' = gathered w @ groups (int N) ?xs"
    using scan_ok [OF _ _ s] N by simp
  have g: "?xs \<noteq> [] \<and> int (length ?xs) < int N \<longrightarrow> groups (int N) ?xs = [?xs]"
    using single_group [of ?xs N] by simp
  have h: "?xs = [] \<longrightarrow> groups (int N) ?xs = []"
    by (simp add: groups_pos [OF N(2)] N(2))
  show ?thesis unfolding N(1) by (intro conjI) (fact a, fact b, fact c, fact d, fact e, fact f, fact g, fact h)
qed

text \<open>
  With no candidate and the concurrency limit 1, larger than the number of candidates,
  the scan starts no group: not one group holding all (zero) candidates.
\<close>

theorem one_group_counterexample:
  "(1::int) \<le> 1 \<and>
   int (length (generate_subdomains
      \<lparr>domain = ''example.com'', wordlist = [], concurrency = 1, output_file = None, results = []\<rparr>)) < 1 \<and>
   fst (scan example_env
      (\<lparr>domain = ''example.com'', wordlist = [], concurrency = 1, output_file = None, results = []\<rparr>,
       init_world)) = None \<and>
   gathered (snd (snd (scan example_env
      (\<lparr>domain = ''example.com'', wordlist = [], concurrency = 1, output_file = None, results = []\<rparr>,
       init_world)))) = [] \<and>
   groups 1 (generate_subdomains
      \<lparr>domain = ''example.com'', wordlist = [], concurrency = 1, output_file = None, results = []\<rparr>)
     \<noteq> [generate_subdomains
      \<lparr>domain = ''example.com'', wordlist = [], concurrency = 1, output_file = None, results = []\<rparr>]"
  by code_simp

theorem scan_groups_witness:
  "no_task_fails example_env (generate_subdomains example_scanner)
     (length (generate_subdomains example_scanner)) \<and>
   gathered (snd (snd (scan example_env (example_scanner, init_world)))) =
     [[''www.example.com'', ''doesnotexist123.example.com''],
      [''mail.example.com'', ''ftp.example.com''], [''api.example.com'']]"
proof -
  note t = scan_groups [OF example_concurrency example_scan]
  note f = t [THEN conjunct2, THEN conjunct2, THEN conjunct2, THEN conjunct2, THEN conjunct2,
    THEN conjunct1, rule_format]
  have "gathered (snd (snd (scan example_env (example_scanner, init_world)))) =
      gathered init_world @ groups (concurrency example_scanner) (generate_subdomains example_scanner)"
    by (rule f) (rule example_no_task_fails)
  then show ?thesis using example_no_task_fails by (simp add: example_groups init_world_def)
qed

text \<open>
  C10. With the concurrency 0 the \<open>range\<close> of the loop raises \<open>ValueError\<close>: \<open>scan\<close>
  raises it after creating the progress task, and nothing else has happened. With a
  negative concurrency and at least one candidate the loop body never runs: no group is
  started, no result is added, and the counter stays at 0, below the total; the scan
  then goes on to save the (empty) results, and is left by an exception only if the
  print after saving raises.
\<close>

theorem nonpositive_concurrency:
  "(concurrency sc = 0 \<longrightarrow>
      scan env (sc, w) = (Some (ValueError ''range() arg 3 must not be zero''), sc,
         w\<lparr>task_total := length (generate_subdomains sc), task_completed := 0\<rparr>)) \<and>
   (concurrency sc < 0 \<and> generate_subdomains sc \<noteq> [] \<longrightarrow>
      fst (scan env (sc, w)) =
        (case output_file sc of
           None \<Rightarrow> None
         | Some p \<Rightarrow>
             if p \<noteq> [] \<and> open_error env p = None
             then map_option MarkupError (markup_error env (saved_message p)) else None) \<and>
      gathered (snd (snd (scan env (sc, w)))) = gathered w \<and>
      results (fst (snd (scan env (sc, w)))) = results sc \<and>
      task_total (snd (snd (scan env (sc, w)))) = length (generate_subdomains sc) \<and>
      task_completed (snd (snd (scan env (sc, w)))) = 0 \<and>
      task_completed (snd (snd (scan env (sc, w)))) < task_total (snd (snd (scan env (sc, w)))))"
proof -
  have z: "concurrency sc = 0 \<Longrightarrow>
      scan env (sc, w) = (Some (ValueError ''range() arg 3 must not be zero''), sc,
         w\<lparr>task_total := length (generate_subdomains sc), task_completed := 0\<rparr>)"
    by (simp add: scan_def py_range_def Let_def)
  have n: "concurrency sc < 0 \<Longrightarrow>
      py_range 0 (int (length (generate_subdomains sc))) (concurrency sc) = Inr []"
    by (simp add: py_range_def range_len_def)
  have "concurrency sc < 0 \<Longrightarrow> generate_subdomains sc \<noteq> [] \<Longrightarrow>
      fst (scan env (sc, w)) =
        (case output_file sc of
           None \<Rightarrow> None
         | Some p \<Rightarrow>
             if p \<noteq> [] \<and> open_error env p = None
             then map_option MarkupError (markup_error env (saved_message p)) else None) \<and>
      gathered (snd (snd (scan env (sc, w)))) = gathered w \<and>
      results (fst (snd (scan env (sc, w)))) = results sc \<and>
      task_total (snd (snd (scan env (sc, w)))) = length (generate_subdomains sc) \<and>
      task_completed (snd (snd (scan env (sc, w)))) = 0 \<and>
      task_completed (snd (snd (scan env (sc, w)))) < task_total (snd (snd (scan env (sc, w))))"
    using n
    by (auto simp: scan_def Let_def save_results_def console_print_def split: option.splits)
  with z show ?thesis by blast
qed

theorem nonpositive_concurrency_witness:
  "fst (scan example_env (example_scanner\<lparr>concurrency := 0\<rparr>, init_world)) =
     Some (ValueError ''range() arg 3 must not be zero'') \<and>
   gathered (snd (snd (scan example_env (example_scanner\<lparr>concurrency := 0\<rparr>, init_world)))) = [] \<and>
   gathered (snd (snd (scan example_env (example_scanner\<lparr>concurrency := - 1\<rparr>, init_world)))) = [] \<and>
   task_completed (snd (snd (scan example_env (example_scanner\<lparr>concurrency := - 1\<rparr>, init_world)))) = 0 \<and>
   task_total (snd (snd (scan example_env (example_scanner\<lparr>concurrency := - 1\<rparr>, init_world)))) = 5"
proof -
  have g: "generate_subdomains (example_scanner\<lparr>concurrency := - 1\<rparr>) =
      [''www.example.com'', ''doesnotexist123.example.com'', ''mail.example.com'',
       ''ftp.example.com'', ''api.example.com'']"
    by code_simp
  from nonpositive_concurrency [of "example_scanner\<lparr>concurrency := 0\<rparr>" example_env init_world]
  have z: "scan example_env (example_scanner\<lparr>concurrency := 0\<rparr>, init_world) =
      (Some (ValueError ''range() arg 3 must not be zero''), example_scanner\<lparr>concurrency := 0\<rparr>,
       init_world\<lparr>task_total := length (generate_subdomains (example_scanner\<lparr>concurrency := 0\<rparr>)),
          task_completed := 0\<rparr>)"
    by simp
  from nonpositive_concurrency [of "example_scanner\<lparr>concurrency := - 1\<rparr>" example_env init_world] g
  have n: "gathered (snd (snd (scan example_env (example_scanner\<lparr>concurrency := - 1\<rparr>, init_world)))) =
        gathered init_world \<and>
      task_total (snd (snd (scan example_env (example_scanner\<lparr>concurrency := - 1\<rparr>, init_world)))) = 5 \<and>
      task_completed (snd (snd (scan example_env (example_scanner\<lparr>concurrency := - 1\<rparr>, init_world)))) = 0"
    by simp
  from z n show ?thesis by (simp add: init_world_def)
qed

section \<open>Progress, results and output\<close>

text \<open>
  C4. The counter is meant to advance once for every candidate, whatever its lookup
  gives: the update is the last statement of \<open>resolve_subdomain\<close>, outside the test on
  the addresses. But the print of a successful result comes before it and can raise.
  With the one label \<open>[/x]\<close> and the concurrency 1, the candidate \<open>[/x].example.com\<close>
  resolves, rich raises \<open>MarkupError\<close> on the line to print, the update is skipped and
  the scan is left by the exception with the counter at 0 of 1 and no result recorded.
\<close>

theorem progress_update_skipped:
  "concurrency markup_scanner = 1 \<and>
   generate_subdomains markup_scanner = [''[/x].example.com''] \<and>
   reply (answer example_env 0) = Inr [''93.184.216.34'', ''2606:2800:220:1::1''] \<and>
   markup_error example_env (console_line ''[/x].example.com''
      [''93.184.216.34'', ''2606:2800:220:1::1''] (duration (answer example_env 0))) =
     Some ''closing tag does not match any open tag'' \<and>
   fst (scan example_env (markup_scanner, init_world)) =
     Some (MarkupError ''closing tag does not match any open tag'') \<and>
   task_total (snd (snd (scan example_env (markup_scanner, init_world)))) = 1 \<and>
   task_completed (snd (snd (scan example_env (markup_scanner, init_world)))) = 0 \<and>
   display (snd (snd (scan example_env (markup_scanner, init_world)))) = [] \<and>
   results (fst (snd (scan example_env (markup_scanner, init_world)))) = []"
  by code_simp

text \<open>
  C5. After a scan with a concurrency limit of at least 1 in which no task fails (no
  lookup is interrupted and every result can be printed), the lines added to \<open>results\<close>
  are those of the tasks whose outcome has addresses, in the order of completion. That
  order is a rearrangement of the candidates (each position once), so as a multiset the
  new results are exactly the lines of the successful candidates, one each; no task
  without addresses contributes a line, and the file written, if any, holds the results
  and nothing else.
\<close>

theorem results_are_the_successful_outcomes:
  assumes "1 \<le> concurrency sc"
    and "no_task_fails env (generate_subdomains sc) (length (generate_subdomains sc))"
    and "scan env (sc, w) = (r, sc', w')"
  shows "results sc' = results sc @ map (line_of env)
            (successful env (schedule env (concurrency sc) (generate_subdomains sc))) \<and>
         mset (schedule env (concurrency sc) (generate_subdomains sc)) =
            mset (enumerate 0 (generate_subdomains sc)) \<and>
         mset (results sc') = mset (results sc) +
            image_mset (line_of env) (mset (successful env (enumerate 0 (generate_subdomains sc)))) \<and>
         (\<forall>t \<in> set (successful env (schedule env (concurrency sc) (generate_subdomains sc))).
            outcome_addresses (reply (answer env (fst t))) \<noteq> []) \<and>
         (\<forall>p. output_file sc = Some p \<and> p \<noteq> [] \<and> open_error env p = None \<longrightarrow>
            files w' p = Some (''utf-8'', concat (map (\<lambda>l. l @ [CHR 0x0A]) (results sc'))))"
proof -
  let ?xs = "generate_subdomains sc"
  from assms(1) obtain N where N: "concurrency sc = int N" "0 < N" by (rule pos_int_nat)
  note o = scan_ok [OF _ assms(2,3)]
  have p: "mset (schedule env (concurrency sc) ?xs) = mset (enumerate 0 ?xs)"
    using mset_schedule [OF N(2)] N(1) by simp
  have r1: "results sc' = results sc @ map (line_of env)
      (successful env (schedule env (concurrency sc) ?xs))"
    using o assms(1) by simp
  then have "mset (results sc') = mset (results sc) +
      image_mset (line_of env) (mset (successful env (schedule env (concurrency sc) ?xs)))"
    by simp
  then have m: "mset (results sc') = mset (results sc) +
      image_mset (line_of env) (mset (successful env (enumerate 0 ?xs)))"
    by (simp only: mset_successful [OF p])
  have f: "\<forall>p. output_file sc = Some p \<and> p \<noteq> [] \<and> open_error env p = None \<longrightarrow>
            files w' p = Some (''utf-8'', concat (map (\<lambda>l. l @ [CHR 0x0A]) (results sc')))"
    using o assms(1) by auto
  have ne: "\<forall>t \<in> set (successful env (schedule env (concurrency sc) ?xs)).
      outcome_addresses (reply (answer env (fst t))) \<noteq> []"
    using successful_nonempty by blast
  show ?thesis by (intro conjI) (fact r1, fact p, fact m, fact ne, fact f)
qed

theorem results_are_the_successful_outcomes_witness:
  "results (fst (snd (scan example_env (example_scanner, init_world)))) =
     [''www.example.com -> 93.184.216.34, 2606:2800:220:1::1 0.05'',
      ''ftp.example.com -> 93.184.216.36 0.04'',
      ''mail.example.com -> 93.184.216.35 0.06'',
      ''api.example.com -> 93.184.216.37 0.12'']"
proof -
  have r: "results example_scanner = []" by (simp add: example_scanner_def)
  have "results (fst (snd (scan example_env (example_scanner, init_world)))) =
      results example_scanner @ map (line_of example_env) (successful example_env
        (schedule example_env (concurrency example_scanner) (generate_subdomains example_scanner)))"
    by (rule results_are_the_successful_outcomes
      [OF example_concurrency example_no_task_fails example_scan, THEN conjunct1])
  then show ?thesis by (simp only: example_schedule example_lines r append_Nil)
qed

text \<open>
  C6. With an output path that can be written, a scan in which no task fails writes
  there, in a file opened with the encoding \<open>utf-8\<close>, the results in the order the
  scanner holds them, each followed by one newline. The line of a successful task is its
  candidate, \<open> -> \<close>, its addresses joined by a comma and a space, a space and the
  duration with two decimals. The lines stand in completion order: every candidate is
  taken once, group after group, and within a group by the arrival of the replies.
\<close>

theorem output_lines:
  assumes "1 \<le> concurrency sc"
    and "no_task_fails env (generate_subdomains sc) (length (generate_subdomains sc))"
    and "scan env (sc, w) = (r, sc', w')"
    and "output_file sc = Some p" and "p \<noteq> []" and "open_error env p = None"
  shows "files w' p = Some (''utf-8'', concat (map (\<lambda>l. l @ [CHR 0x0A]) (results sc'))) \<and>
         results sc' = results sc @
           map (\<lambda>(k, s). s @ '' -> '' @ py_join '', '' (outcome_addresses (reply (answer env k)))
                  @ '' '' @ format_2f (duration (answer env k)))
             (successful env (schedule env (concurrency sc) (generate_subdomains sc))) \<and>
         mset (schedule env (concurrency sc) (generate_subdomains sc)) =
            mset (enumerate 0 (generate_subdomains sc)) \<and>
         sorted_wrt (before env (nat (concurrency sc)))
            (schedule env (concurrency sc) (generate_subdomains sc)) \<and>
         (\<forall>d. two_decimals (format_2f d))"
proof -
  from assms(1) obtain N where N: "concurrency sc = int N" "0 < N" by (rule pos_int_nat)
  note o = scan_ok [OF _ assms(2,3)]
  have l: "line_of env = (\<lambda>(k, s). s @ '' -> '' @ py_join '', '' (outcome_addresses (reply (answer env k)))
                  @ '' '' @ format_2f (duration (answer env k)))"
    by (auto simp: line_of_def result_line_def fun_eq_iff)
  have f: "files w' p = Some (''utf-8'', concat (map (\<lambda>l. l @ [CHR 0x0A]) (results sc')))"
    using o assms(1,4,5,6) by simp
  have r: "results sc' = results sc @ map (line_of env)
      (successful env (schedule env (concurrency sc) (generate_subdomains sc)))"
    using o assms(1) by simp
  from r have r': "results sc' = results sc @
           map (\<lambda>(k, s). s @ '' -> '' @ py_join '', '' (outcome_addresses (reply (answer env k)))
                  @ '' '' @ format_2f (duration (answer env k)))
             (successful env (schedule env (concurrency sc) (generate_subdomains sc)))"
    by (simp only: l)
  have m: "mset (schedule env (concurrency sc) (generate_subdomains sc)) =
      mset (enumerate 0 (generate_subdomains sc))"
    using mset_schedule [OF N(2)] N(1) by simp
  have b: "sorted_wrt (before env (nat (concurrency sc)))
      (schedule env (concurrency sc) (generate_subdomains sc))"
    using schedule_sorted [OF N(2)] N(1) by simp
  have t: "\<forall>d. two_decimals (format_2f d)" by (simp add: format_2f_two_decimals)
  show ?thesis by (intro conjI) (fact f, fact r', fact m, fact b, fact t)
qed

theorem output_lines_witness:
  "finished (answer example_env 3) < finished (answer example_env 2) \<and>
   files (snd (snd (scan example_env (example_scanner, init_world)))) ''out.txt'' =
     Some (''utf-8'', concat (map (\<lambda>l. l @ [CHR 0x0A])
       [''www.example.com -> 93.184.216.34, 2606:2800:220:1::1 0.05'',
        ''ftp.example.com -> 93.184.216.36 0.04'',
        ''mail.example.com -> 93.184.216.35 0.06'',
        ''api.example.com -> 93.184.216.37 0.12'']))"
proof -
  have o: "output_file example_scanner = Some ''out.txt''" by (simp add: example_scanner_def)
  have p: "''out.txt'' \<noteq> []" by simp
  have q: "open_error example_env ''out.txt'' = None" by (simp add: example_env_def)
  have r: "results example_scanner = []" by (simp add: example_scanner_def)
  have a: "finished (answer example_env 3) < finished (answer example_env 2)" by code_simp
  have l: "(\<lambda>(k, s). s @ '' -> '' @
        py_join '', '' (outcome_addresses (reply (answer example_env k)))
        @ '' '' @ format_2f (duration (answer example_env k))) = line_of example_env"
    by (auto simp: line_of_def result_line_def fun_eq_iff)
  note t = output_lines [OF example_concurrency example_no_task_fails example_scan o p q]
  have f: "files (snd (snd (scan example_env (example_scanner, init_world)))) ''out.txt'' =
      Some (''utf-8'', concat (map (\<lambda>l. l @ [CHR 0x0A])
        (results (fst (snd (scan example_env (example_scanner, init_world)))))))"
    by (rule t [THEN conjunct1])
  have "results (fst (snd (scan example_env (example_scanner, init_world)))) =
      results example_scanner @
      map (\<lambda>(k, s). s @ '' -> '' @
        py_join '', '' (outcome_addresses (reply (answer example_env k)))
        @ '' '' @ format_2f (duration (answer example_env k)))
      (successful example_env (schedule example_env (concurrency example_scanner)
         (generate_subdomains example_scanner)))"
    by (rule t [THEN conjunct2, THEN conjunct1])
  then have R: "results (fst (snd (scan example_env (example_scanner, init_world)))) =
     [''www.example.com -> 93.184.216.34, 2606:2800:220:1::1 0.05'',
      ''ftp.example.com -> 93.184.216.36 0.04'',
      ''mail.example.com -> 93.184.216.35 0.06'',
      ''api.example.com -> 93.184.216.37 0.12'']"
    by (simp only: l example_schedule r append_Nil example_lines)
  have "files (snd (snd (scan example_env (example_scanner, init_world)))) ''out.txt'' =
     Some (''utf-8'', concat (map (\<lambda>l. l @ [CHR 0x0A])
       [''www.example.com -> 93.184.216.34, 2606:2800:220:1::1 0.05'',
        ''ftp.example.com -> 93.184.216.36 0.04'',
        ''mail.example.com -> 93.184.216.35 0.06'',
        ''api.example.com -> 93.184.216.37 0.12'']))"
    using f unfolding R .
  with a show ?thesis by (rule conjI)
qed

section \<open>Interruption and empty input\<close>

text \<open>
  C2, as amended. When the lookup at position \<open>k\<close> is interrupted (it raises
  \<open>KeyboardInterrupt\<close> or is cancelled) and no task of an earlier group fails, the groups
  started by the run are those up to the group \<open>k div N\<close> that holds this lookup, and no
  later one; and the run writes no file: the results collected up to the interruption
  are not saved, with or without an output path.
\<close>

theorem interrupted_run:
  assumes l: "load env wordlist_path w = (wl, w1)" and ne: "wl \<noteq> []"
    and p: "markup_error env (start_message d) = None"
    and c: "1 \<le> c"
    and k: "k < length (generate_subdomains
              \<lparr>domain = d, wordlist = wl, concurrency = c, output_file = out, results = []\<rparr>)"
    and i: "raises (reply (answer env k))"
    and b: "no_task_fails env (generate_subdomains
              \<lparr>domain = d, wordlist = wl, concurrency = c, output_file = out, results = []\<rparr>)
              (k div nat c * nat c)"
  shows "files (snd (run env d wordlist_path c out w)) = files w \<and>
         Suc (k div nat c) \<le> length (groups c (generate_subdomains
            \<lparr>domain = d, wordlist = wl, concurrency = c, output_file = out, results = []\<rparr>)) \<and>
         gathered (snd (run env d wordlist_path c out w)) =
           gathered w @ take (Suc (k div nat c)) (groups c (generate_subdomains
             \<lparr>domain = d, wordlist = wl, concurrency = c, output_file = out, results = []\<rparr>))"
proof -
  let ?sc = "\<lparr>domain = d, wordlist = wl, concurrency = c, output_file = out, results = []\<rparr>"
  let ?xs = "generate_subdomains ?sc"
  let ?w2 = "w1\<lparr>console := console w1 @ [start_message d]\<rparr>"
  from c obtain N where N: "c = int N" "0 < N" by (rule pos_int_nat)
  obtain r sc3 w3 where s: "scan env (?sc, ?w2) = (r, sc3, w3)"
    by (cases "scan env (?sc, ?w2)") auto
  have cs: "concurrency ?sc = int N" using N(1) by simp
  have t: "task_exn env (k, ?xs ! k) \<noteq> None" using i by (rule raises_task_exn)
  from b N(1) have b': "no_task_fails env ?xs (k div N * N)" by simp
  from scan_stops [OF N(2) cs k t b' s] obtain e where
    e: "r = Some e" and f: "files w3 = files ?w2"
    and m: "Suc (k div N) \<le> length (groups (int N) ?xs)"
    and g: "gathered w3 = gathered ?w2 @ take (Suc (k div N)) (groups (int N) ?xs)"
    by auto
  obtain r' w' where h: "handle e w3 = (r', w')" by (cases "handle e w3")
  have "run env d wordlist_path c out w = (r', w')"
    using l ne p s e h by (simp add: run_def Let_def console_print_def)
  with handle_frame [OF h] f g m load_frame [OF l] N(1) show ?thesis by simp
qed

text \<open>
  An output path is given, the results for \<open>www.example.com\<close> and \<open>ftp.example.com\<close>
  have been collected, and the lookup of \<open>mail.example.com\<close> is interrupted: the run is
  left by \<open>CancelledError\<close> and the output file does not exist.
\<close>

theorem interrupted_run_counterexample:
  "output_file example_scanner = Some ''out.txt'' \<and>
   reply (answer interrupted_env 2) = Inl KeyboardInterrupt \<and>
   results (fst (snd (scan interrupted_env (example_scanner, init_world)))) =
     [''www.example.com -> 93.184.216.34, 2606:2800:220:1::1 0.05'',
      ''ftp.example.com -> 93.184.216.36 0.04''] \<and>
   fst (run interrupted_env ''example.com'' ''words.txt'' 2 (Some ''out.txt'') init_world) =
     Some CancelledError \<and>
   files (snd (run interrupted_env ''example.com'' ''words.txt'' 2 (Some ''out.txt'') init_world))
     ''out.txt'' = None"
  by code_simp

theorem interrupted_run_witness:
  "raises (reply (answer interrupted_env 2)) \<and>
   files (snd (run interrupted_env ''example.com'' ''words.txt'' 2 (Some ''out.txt'') init_world)) =
     files init_world \<and>
   gathered (snd (run interrupted_env ''example.com'' ''words.txt'' 2 (Some ''out.txt'') init_world)) =
     [[''www.example.com'', ''doesnotexist123.example.com''],
      [''mail.example.com'', ''ftp.example.com'']] \<and>
   length (groups 2 [''www.example.com'', ''doesnotexist123.example.com'', ''mail.example.com'',
      ''ftp.example.com'', ''api.example.com'']) = 3"
proof -
  let ?xs = "[''www.example.com'', ''doesnotexist123.example.com'', ''mail.example.com'',
      ''ftp.example.com'', ''api.example.com'']"
  have ne: "[''www'', ''doesnotexist123'', ''mail'', ''ftp'', ''api''] \<noteq> []" by simp
  have p: "markup_error interrupted_env (start_message ''example.com'') = None" by code_simp
  have c: "(1::int) \<le> 2" by simp
  have k: "2 < length (generate_subdomains \<lparr>domain = ''example.com'',
      wordlist = [''www'', ''doesnotexist123'', ''mail'', ''ftp'', ''api''], concurrency = 2,
      output_file = Some ''out.txt'', results = []\<rparr>)"
    by (simp add: interrupted_candidates)
  have i: "raises (reply (answer interrupted_env 2))" by code_simp
  have "no_task_fails interrupted_env ?xs 2" by code_simp
  then have b: "no_task_fails interrupted_env (generate_subdomains \<lparr>domain = ''example.com'',
      wordlist = [''www'', ''doesnotexist123'', ''mail'', ''ftp'', ''api''], concurrency = 2,
      output_file = Some ''out.txt'', results = []\<rparr>) (2 div nat 2 * nat 2)"
    by (simp add: interrupted_candidates)
  have g: "take (Suc (2 div nat 2)) (groups 2 ?xs) =
      [[''www.example.com'', ''doesnotexist123.example.com''],
       [''mail.example.com'', ''ftp.example.com'']]"
    by code_simp
  have n: "length (groups 2 ?xs) = 3" by code_simp
  note t = interrupted_run [OF interrupted_load ne p c k i b]
  have "files (snd (run interrupted_env ''example.com'' ''words.txt'' 2 (Some ''out.txt'')
      init_world)) = files init_world"
    by (rule t [THEN conjunct1])
  moreover from t [THEN conjunct2, THEN conjunct2] have "gathered (snd (run interrupted_env ''example.com'' ''words.txt'' 2
      (Some ''out.txt'') init_world)) = gathered init_world @ take (Suc (2 div nat 2)) (groups 2 ?xs)"
    by (simp only: interrupted_candidates)
  then have "gathered (snd (run interrupted_env ''example.com'' ''words.txt'' 2
      (Some ''out.txt'') init_world)) =
      [[''www.example.com'', ''doesnotexist123.example.com''],
       [''mail.example.com'', ''ftp.example.com'']]"
    by (simp only: g) (simp add: init_world_def)
  ultimately show ?thesis using i n by (intro conjI)
qed

text \<open>
  C8. When loading the wordlist gives no word (the file is missing or unreadable, or all
  its lines are blank), \<open>run\<close> prints the message and returns: no group is started, the
  progress counter does not move and no file is written.
\<close>

theorem empty_wordlist_aborts:
  assumes "wordlist_file env wordlist_path = NotFound \<or>
           (\<exists>msg. wordlist_file env wordlist_path = ReadError msg) \<or>
           (\<exists>ls. wordlist_file env wordlist_path = Lines ls \<and>
                 (\<forall>line \<in> set ls. strip (isspace env) line = []))"
  shows "fst (load env wordlist_path w) = [] \<and>
         run env d wordlist_path c out w =
           (None, (snd (load env wordlist_path w))
              \<lparr>console := console w @ [''[red]No words found in the wordlist. Exiting.[/red]'']\<rparr>) \<and>
         gathered (snd (run env d wordlist_path c out w)) = gathered w \<and>
         files (snd (run env d wordlist_path c out w)) = files w \<and>
         task_completed (snd (run env d wordlist_path c out w)) = task_completed w"
proof -
  obtain wl w1 where l: "load env wordlist_path w = (wl, w1)" by (cases "load env wordlist_path w")
  from assms have "fst (load env wordlist_path w) = []" by (auto simp: load_def)
  with l have "wl = []" by simp
  with l load_frame [OF l] show ?thesis by (simp add: run_def)
qed

theorem empty_wordlist_aborts_witness:
  "fst (load example_env ''missing.txt'' init_world) = [] \<and>
   fst (run example_env ''example.com'' ''missing.txt'' 50 (Some ''out.txt'') init_world) = None \<and>
   console (snd (run example_env ''example.com'' ''missing.txt'' 50 (Some ''out.txt'') init_world)) =
     [''[red]No words found in the wordlist. Exiting.[/red]''] \<and>
   gathered (snd (run example_env ''example.com'' ''missing.txt'' 50 (Some ''out.txt'') init_world)) = [] \<and>
   files (snd (run example_env ''example.com'' ''missing.txt'' 50 (Some ''out.txt'') init_world)) =
     files init_world"
proof -
  have h: "wordlist_file example_env ''missing.txt'' = NotFound \<or>
      (\<exists>msg. wordlist_file example_env ''missing.txt'' = ReadError msg) \<or>
      (\<exists>ls. wordlist_file example_env ''missing.txt'' = Lines ls \<and>
         (\<forall>line \<in> set ls. strip (isspace example_env) line = []))"
    by (simp add: example_env_def)
  note t = empty_wordlist_aborts [OF h, of init_world "''example.com''" 50 "Some ''out.txt''"]
  from t have l: "fst (load example_env ''missing.txt'' init_world) = []" by blast
  from t have r: "run example_env ''example.com'' ''missing.txt'' 50 (Some ''out.txt'') init_world =
      (None, (snd (load example_env ''missing.txt'' init_world))
         \<lparr>console := console init_world @ [''[red]No words found in the wordlist. Exiting.[/red]'']\<rparr>)"
    by blast
  from t have g: "gathered (snd (run example_env ''example.com'' ''missing.txt'' 50 (Some ''out.txt'')
      init_world)) = gathered init_world"
    by blast
  from t have f: "files (snd (run example_env ''example.com'' ''missing.txt'' 50 (Some ''out.txt'')
      init_world)) = files init_world"
    by blast
  have "fst (run example_env ''example.com'' ''missing.txt'' 50 (Some ''out.txt'') init_world) = None"
    by (simp add: r)
  moreover have "console (snd (run example_env ''example.com'' ''missing.txt'' 50 (Some ''out.txt'')
      init_world)) = [''[red]No words found in the wordlist. Exiting.[/red]'']"
    by (simp add: r) (simp add: init_world_def)
  moreover have "gathered init_world = []" by (simp add: init_world_def)
  ultimately show ?thesis using l g f by simp
qed

end
